theory Spec2Isabelle
  imports Main "HOL-Library.AList"
begin

section \<open>Data of the image service\<close>

text \<open>
  The repository clones a machine image from one region to several others. This theory
  embeds \<^verbatim>\<open>lib/constants.js\<close>, \<^verbatim>\<open>lib/ec2.js\<close>,
  \<^verbatim>\<open>lib/configValidator.js\<close>, \<^verbatim>\<open>lib/imageCloner.js\<close> and
  \<^verbatim>\<open>index.js\<close>. The remote service, the timers and the order in which concurrent
  workers finish are the environment: they are inputs of the model, and every call and
  timer the code issues is recorded in a log.
\<close>

type_synonym region = string

record tag =
  Key :: string
  Value :: string

record permission =
  UserId :: "string option"
  Group :: "string option"

text \<open>An image as \<^verbatim>\<open>describeImages\<close> returns it; a property the response lacks is \<open>None\<close>.\<close>

record image =
  ImageId :: string
  State :: "string option"
  Name :: string
  Description :: string
  Tags :: "tag list"

text \<open>The value of a launch permission update: \<^verbatim>\<open>{ Add: [...], Remove: [...] }\<close>.\<close>

record attributeValue =
  Add :: "permission list option"
  Remove :: "permission list option"

text \<open>
  The errors the code constructs. \<open>CallFailed op cause\<close> is
  \<^verbatim>\<open>new Error(util.format('Call to <op> failed: %s', cause))\<close>,
  \<open>UnsupportedAttribute op a\<close> is
  \<^verbatim>\<open>'Invalid or unsupported attribute for <op>: <a>'\<close>,
  \<open>InvalidConfiguration vs\<close> is \<^verbatim>\<open>new Error(JSON.stringify(errors))\<close> and
  \<open>CloningNotAttempted\<close> is \<^verbatim>\<open>new Error('Cloning not attempted')\<close>.
\<close>

datatype error =
    CallFailed string string
  | NoImageFound string
  | UnsupportedAttribute string string
  | InvalidConfiguration "string list"
  | CloningNotAttempted

section \<open>Property tables and their lookup (lib/constants.js)\<close>

text \<open>
  The tables of \<^verbatim>\<open>constants.js\<close> are object literals, and the code reads them with
  \<^verbatim>\<open>table[attribute]\<close>. Such a read finds the table's own keys and, failing that, the
  members every object literal inherits from \<^verbatim>\<open>Object.prototype\<close>. A property is
  therefore either one of the table's own strings or an inherited member.
\<close>

datatype property = OwnString string | Inherited string

definition LAUNCH_PERMISSION :: string where
  "LAUNCH_PERMISSION = ''launchPermission''"

definition describeImageAttributesProperty :: "(string \<times> string) list" where
  "describeImageAttributesProperty = [(''launchPermission'', ''LaunchPermissions'')]"

definition modifyImageAttributesProperty :: "(string \<times> string) list" where
  "modifyImageAttributesProperty = [(''launchPermission'', ''LaunchPermission'')]"

definition objectPrototypeMembers :: "string list" where
  "objectPrototypeMembers =
     [''constructor'', ''hasOwnProperty'', ''isPrototypeOf'', ''propertyIsEnumerable'',
      ''toLocaleString'', ''toString'', ''valueOf'', ''__defineGetter__'',
      ''__defineSetter__'', ''__lookupGetter__'', ''__lookupSetter__'', ''__proto__'']"

definition tableLookup :: "(string \<times> string) list \<Rightarrow> string \<Rightarrow> property option" where
  "tableLookup table k =
     (case map_of table k of
        Some v \<Rightarrow> Some (OwnString v)
      | None \<Rightarrow> if k \<in> set objectPrototypeMembers then Some (Inherited k) else None)"

text \<open>
  JavaScript truthiness of a property that was found, as \<^verbatim>\<open>if (!property)\<close>
  tests it: the empty string is falsy, an inherited function or object is truthy. A
  property that was not found is \<^verbatim>\<open>undefined\<close>, which is falsy.
\<close>

fun truthy :: "property \<Rightarrow> bool" where
  "truthy (OwnString s) = (s \<noteq> [])"
| "truthy (Inherited k) = True"

section \<open>The remote service and the log\<close>

text \<open>
  A request is one call on the region's SDK client with its parameters:
  \<open>CopyImageReq region Name SourceImageId SourceRegion Description\<close>,
  \<open>DescribeImagesReq region ImageIds\<close>,
  \<open>DescribeImageAttributeReq region Attribute ImageId\<close>,
  \<open>ModifyImageAttributeReq region Attribute ImageId property value\<close> (the value is stored
  under the key \<open>property\<close>), \<open>CreateTagsReq region Resources Tags\<close>.
\<close>

datatype request =
    CopyImageReq region string string region string
  | DescribeImagesReq region "string list"
  | DescribeImageAttributeReq region string string
  | ModifyImageAttributeReq region string string property attributeValue
  | CreateTagsReq region "string list" "tag list"

text \<open>
  The log holds what the code does to the outside: requests to the service and timers
  (\<^verbatim>\<open>setTimeout\<close> with its delay in milliseconds; \<open>None\<close> is the delay computed from a
  missing number).
\<close>

datatype event = Remote request | SetTimeout "int option"

text \<open>
  The service answers a request depending on the requests a worker has sent so far, in any
  way whatsoever: the answer is a function of the log and the request. An \<open>Inl\<close> answer
  is the SDK's error (its text), an \<open>Inr\<close> answer the data: the new image's id, the list
  \<^verbatim>\<open>data.Images\<close>, the attribute data as an object from property names to grants, or
  nothing.
\<close>

record remote =
  copyImageR :: "event list \<Rightarrow> request \<Rightarrow> string + string"
  describeImagesR :: "event list \<Rightarrow> request \<Rightarrow> string + image list"
  describeImageAttributeR :: "event list \<Rightarrow> request \<Rightarrow> string + (string \<times> permission list) list"
  modifyImageAttributeR :: "event list \<Rightarrow> request \<Rightarrow> string + unit"
  createTagsR :: "event list \<Rightarrow> request \<Rightarrow> string + unit"

definition send :: "(event list \<Rightarrow> request \<Rightarrow> 'a) \<Rightarrow> request \<Rightarrow> event list \<Rightarrow> 'a \<times> event list" where
  "send answer req log = (answer log req, log @ [Remote req])"

section \<open>Bounded retry (async.retry as lib/ec2.js configures it)\<close>

record retryConfiguration =
  times :: nat
  interval :: int

definition retryConfig :: retryConfiguration where
  "retryConfig = \<lparr>times = 3, interval = 100\<rparr>"

text \<open>
  \<open>attempts n ms task\<close> runs \<open>task\<close> until it succeeds, at most \<open>n\<close> times (once when
  \<open>n\<close> is 0 or 1), pausing \<open>ms\<close> milliseconds between two attempts when \<open>ms\<close> is
  positive; the last attempt's error is the result when all fail.
\<close>

fun attempts :: "nat \<Rightarrow> int \<Rightarrow> (event list \<Rightarrow> ('e + 'a) \<times> event list) \<Rightarrow> event list \<Rightarrow> ('e + 'a) \<times> event list" where
  "attempts (Suc (Suc n)) ms task log =
     (case task log of
        (Inr a, log') \<Rightarrow> (Inr a, log')
      | (Inl e, log') \<Rightarrow>
          attempts (Suc n) ms task (if 0 < ms then log' @ [SetTimeout (Some ms)] else log'))"
| "attempts (Suc 0) ms task log = task log"
| "attempts 0 ms task log = task log"

definition retry :: "retryConfiguration \<Rightarrow> (event list \<Rightarrow> ('e + 'a) \<times> event list) \<Rightarrow> event list \<Rightarrow> ('e + 'a) \<times> event list" where
  "retry rc task log = attempts (times rc) (interval rc) task log"

section \<open>The service wrappers (lib/ec2.js)\<close>

definition copyImage :: "remote \<Rightarrow> string \<Rightarrow> string \<Rightarrow> string \<Rightarrow> region \<Rightarrow> region \<Rightarrow> event list \<Rightarrow> (error + string) \<times> event list" where
  "copyImage R imageId name description sourceRegion destinationRegion log =
     retry retryConfig
       (\<lambda>l. case send (copyImageR R)
                    (CopyImageReq destinationRegion name imageId sourceRegion description) l of
               (Inl e, l') \<Rightarrow> (Inl (CallFailed ''copyImage'' e), l')
             | (Inr newId, l') \<Rightarrow> (Inr newId, l'))
       log"

definition describeImage :: "remote \<Rightarrow> string \<Rightarrow> region \<Rightarrow> event list \<Rightarrow> (error + image) \<times> event list" where
  "describeImage R imageId region log =
     (case retry retryConfig (send (describeImagesR R) (DescribeImagesReq region [imageId])) log of
        (Inl e, log') \<Rightarrow> (Inl (CallFailed ''describeImages'' e), log')
      | (Inr images, log') \<Rightarrow>
          (case images of
             [] \<Rightarrow> (Inl (NoImageFound imageId), log')
           | img # _ \<Rightarrow> (Inr img, log')))"

text \<open>
  \<^verbatim>\<open>data[property]\<close>: the data holds the service's own property names only, so an
  inherited member used as a key finds nothing.
\<close>

fun dataProperty :: "(string \<times> 'a) list \<Rightarrow> property \<Rightarrow> 'a option" where
  "dataProperty d (OwnString p) = map_of d p"
| "dataProperty d (Inherited k) = None"

definition describeImageAttribute :: "remote \<Rightarrow> string \<Rightarrow> region \<Rightarrow> string \<Rightarrow> event list \<Rightarrow> (error + permission list option) \<times> event list" where
  "describeImageAttribute R imageId region attribute log =
     (case retry retryConfig
             (send (describeImageAttributeR R) (DescribeImageAttributeReq region attribute imageId))
             log of
        (Inl e, log') \<Rightarrow> (Inl (CallFailed ''describeImageAttribute'' e), log')
      | (Inr d, log') \<Rightarrow>
          (case tableLookup describeImageAttributesProperty attribute of
             None \<Rightarrow> (Inl (UnsupportedAttribute ''describeImageAttribute'' attribute), log')
           | Some property \<Rightarrow>
               if \<not> truthy property
               then (Inl (UnsupportedAttribute ''describeImageAttribute'' attribute), log')
               else (Inr (dataProperty d property), log')))"

text \<open>A callback of the form \<^verbatim>\<open>function (error)\<close> yields \<open>None\<close> on success.\<close>

definition modifyImageAttribute :: "remote \<Rightarrow> string \<Rightarrow> region \<Rightarrow> string \<Rightarrow> attributeValue \<Rightarrow> event list \<Rightarrow> error option \<times> event list" where
  "modifyImageAttribute R imageId region attribute v log =
     (case tableLookup modifyImageAttributesProperty attribute of
        None \<Rightarrow> (Some (UnsupportedAttribute ''modifyImageAttribute'' attribute), log)
      | Some property \<Rightarrow>
          if \<not> truthy property
          then (Some (UnsupportedAttribute ''modifyImageAttribute'' attribute), log)
          else
            (case retry retryConfig
                    (send (modifyImageAttributeR R)
                       (ModifyImageAttributeReq region attribute imageId property v))
                    log of
               (Inl e, log') \<Rightarrow> (Some (CallFailed ''modifyImageAttribute'' e), log')
             | (Inr u, log') \<Rightarrow> (None, log')))"

definition tagImage :: "remote \<Rightarrow> string \<Rightarrow> region \<Rightarrow> tag list \<Rightarrow> event list \<Rightarrow> error option \<times> event list" where
  "tagImage R imageId region tags log =
     (case retry retryConfig
             (\<lambda>l. case send (createTagsR R) (CreateTagsReq region [imageId] tags) l of
                     (Inl e, l') \<Rightarrow> (Inl (CallFailed ''createTags'' e), l')
                   | (Inr u, l') \<Rightarrow> (Inr u, l'))
             log of
        (Inl e, log') \<Rightarrow> (Some e, log')
      | (Inr u, log') \<Rightarrow> (None, log'))"

section \<open>Configuration (lib/configValidator.js, fillConfigurationDefaults)\<close>

record config =
  sourceImageId :: string
  sourceRegion :: region
  destinationRegions :: "region list"
  progressCheckIntervalInSeconds :: "int option"
  clientOptions :: "(string \<times> string) list option"

text \<open>
  The violations the schema of \<^verbatim>\<open>ConfigValidator\<close> reports for a configuration, in the
  order of the schema's properties. The record type fixes each property's type and admits
  no additional property, so the schema's \<^verbatim>\<open>type\<close> and
  \<^verbatim>\<open>additionalProperties\<close> constraints hold of every \<open>config\<close>; what remains is
  \<^verbatim>\<open>minLength\<close>, \<^verbatim>\<open>minItems\<close>, \<^verbatim>\<open>minimum\<close> and \<^verbatim>\<open>required\<close>. The schema has no
  \<^verbatim>\<open>uniqueItems\<close>: repeated destination regions are not a violation.
\<close>

definition validate :: "config \<Rightarrow> string list" where
  "validate cfg =
     (if sourceImageId cfg = [] then [''sourceImageId: minLength 1''] else []) @
     (if sourceRegion cfg = [] then [''sourceRegion: minLength 1''] else []) @
     concat (map (\<lambda>r. if r = [] then [''destinationRegions: items: minLength 1''] else [])
               (destinationRegions cfg)) @
     (if destinationRegions cfg = [] then [''destinationRegions: minItems 1''] else []) @
     (case progressCheckIntervalInSeconds cfg of
        None \<Rightarrow> [''progressCheckIntervalInSeconds: required'']
      | Some s \<Rightarrow> if s < 0 then [''progressCheckIntervalInSeconds: minimum 0''] else [])"

text \<open>
  Objects live in a heap and are passed by reference. \<^verbatim>\<open>_.defaults(config, {...})\<close>
  assigns each default to the property of \<open>config\<close> itself that is
  \<^verbatim>\<open>undefined\<close> and returns the same reference.
\<close>

type_synonym ref = nat
type_synonym heap = "ref \<Rightarrow> config"

definition fillConfigurationDefaults :: "heap \<Rightarrow> ref \<Rightarrow> heap \<times> ref" where
  "fillConfigurationDefaults h c =
     (h(c := (h c)\<lparr>progressCheckIntervalInSeconds :=
                     (case progressCheckIntervalInSeconds (h c) of
                        None \<Rightarrow> Some 30
                      | Some s \<Rightarrow> Some s)\<rparr>),
      c)"

section \<open>The completion poller (ImageCloner.awaitImageCopyCompletion)\<close>

text \<open>
  The test of \<^verbatim>\<open>async.doUntil\<close>: \<^verbatim>\<open>imageState && imageState !== 'pending'\<close>.
\<close>

fun leftPending :: "string option \<Rightarrow> bool" where
  "leftPending None = False"
| "leftPending (Some s) = (s \<noteq> [] \<and> s \<noteq> ''pending'')"

text \<open>
  One round sets a timer of \<^verbatim>\<open>progressCheckIntervalInSeconds * 1000\<close> milliseconds and
  then describes the image. The loop has no bound of its own: the first argument is the
  number of rounds the model follows, and \<open>None\<close> says that the poller has not called back
  within them.
\<close>

fun awaitImageCopyCompletion :: "nat \<Rightarrow> config \<Rightarrow> remote \<Rightarrow> string \<Rightarrow> region \<Rightarrow> event list \<Rightarrow> (error option \<times> event list) option" where
  "awaitImageCopyCompletion 0 cfg R imageId region log = None"
| "awaitImageCopyCompletion (Suc rounds) cfg R imageId region log =
     (case describeImage R imageId region
             (log @ [SetTimeout (map_option (\<lambda>s. s * 1000) (progressCheckIntervalInSeconds cfg))]) of
        (Inl e, log') \<Rightarrow> Some (Some e, log')
      | (Inr img, log') \<Rightarrow>
          if leftPending (State img) then Some (None, log')
          else awaitImageCopyCompletion rounds cfg R imageId region log')"

section \<open>The region worker (ImageCloner.cloneImageToRegion)\<close>

definition cloneImageToRegion :: "nat \<Rightarrow> config \<Rightarrow> remote \<Rightarrow> image \<Rightarrow> permission list option \<Rightarrow> region \<Rightarrow> region \<Rightarrow> event list \<Rightarrow> ((error + string) \<times> event list) option" where
  "cloneImageToRegion rounds cfg R img launchPermissions srcRegion dstRegion log =
     (case copyImage R (ImageId img) (Name img) (Description img) srcRegion dstRegion log of
        (Inl e, log1) \<Rightarrow> Some (Inl e, log1)
      | (Inr clonedImageId, log1) \<Rightarrow>
          (case awaitImageCopyCompletion rounds cfg R clonedImageId dstRegion log1 of
             None \<Rightarrow> None
           | Some (Some e, log2) \<Rightarrow> Some (Inl e, log2)
           | Some (None, log2) \<Rightarrow>
               (case tagImage R clonedImageId dstRegion (Tags img) log2 of
                  (Some e, log3) \<Rightarrow> Some (Inl e, log3)
                | (None, log3) \<Rightarrow>
                    (case modifyImageAttribute R clonedImageId dstRegion LAUNCH_PERMISSION
                            \<lparr>Add = launchPermissions, Remove = None\<rparr> log3 of
                       (Some e, log4) \<Rightarrow> Some (Inl e, log4)
                     | (None, log4) \<Rightarrow> Some (Inr clonedImageId, log4)))))"

section \<open>The report and the orchestrator (ImageCloner.cloneImage)\<close>

record regionOutcome =
  error :: "error option"
  imageId :: "string option"
  success :: bool

text \<open>
  The report is an object keyed by region name: an association list in the order in
  which the keys were first set, each key once.
\<close>

type_synonym report = "(region \<times> regionOutcome) list"

definition placeholder :: regionOutcome where
  "placeholder = \<lparr>error = Some CloningNotAttempted, imageId = None, success = False\<rparr>"

text \<open>\<^verbatim>\<open>_.keyBy(regions, function (region) { return region; })\<close>\<close>

definition keyBy :: "region list \<Rightarrow> (region \<times> region) list" where
  "keyBy rs = fold (\<lambda>r acc. AList.update r r acc) rs []"

definition initialResults :: "region list \<Rightarrow> report" where
  "initialResults rs = map (\<lambda>(k, v). (k, placeholder)) (keyBy rs)"

text \<open>
  The state of one call of \<^verbatim>\<open>cloneImage\<close>: its variables \<open>results\<close> and
  \<open>firstCloneImageError\<close>, the count \<open>completed\<close> that \<^verbatim>\<open>async.each\<close> keeps of the
  inner callbacks it has received, and what the call has done so far:
  \<^item> \<open>delivered\<close>: the calls of the caller's callback, each with its error and the report as
    it stood at that moment;
  \<^item> \<open>repeatedStepCallback\<close>: the callback of the series' last step was called a second
    time. What \<^verbatim>\<open>async.series\<close> does then depends on its version (it throws, or it
    calls back again), so the model follows a call no further;
  \<^item> \<open>sourceLog\<close>: the requests and timers of the source lookups;
  \<^item> \<open>workers\<close>: for each worker started, its region and its run: the outcome and the log
    of its pipeline, \<open>None\<close> when the pipeline does not call back.
\<close>

record execution =
  results :: report
  firstCloneImageError :: "error option"
  completed :: nat
  delivered :: "(error option \<times> report) list"
  repeatedStepCallback :: bool
  sourceLog :: "event list"
  workers :: "(region \<times> ((error + string) \<times> event list) option) list"

text \<open>The final callback of the series: \<^verbatim>\<open>callback(error, results)\<close>.\<close>

definition topCallback :: "error option \<Rightarrow> execution \<Rightarrow> execution" where
  "topCallback err x = x\<lparr>delivered := delivered x @ [(err, results x)]\<rparr>"

text \<open>
  \<^verbatim>\<open>asyncCallback\<close> of the step \<^verbatim>\<open>cloneImageToRegions\<close>, the last of the series: its
  first call ends the series.
\<close>

definition asyncCallback :: "error option \<Rightarrow> execution \<Rightarrow> execution" where
  "asyncCallback err x =
     (if delivered x = [] then topCallback err x else x\<lparr>repeatedStepCallback := True\<rparr>)"

text \<open>
  \<^verbatim>\<open>innerAsyncCallback()\<close>: \<^verbatim>\<open>async.each\<close> over \<open>n\<close> items counts the call and, at the
  \<open>n\<close>-th, runs its final function, \<^verbatim>\<open>asyncCallback(firstCloneImageError)\<close>.
\<close>

definition innerAsyncCallback :: "nat \<Rightarrow> execution \<Rightarrow> execution" where
  "innerAsyncCallback n x =
     (let x' = x\<lparr>completed := Suc (completed x)\<rparr>
      in if completed x' = n then asyncCallback (firstCloneImageError x') x' else x')"

text \<open>
  The callback \<^verbatim>\<open>function (error, clonedImageId)\<close> given to each worker. On failure it
  assigns to \<^verbatim>\<open>results[destinationRegion].error\<close>, keeping the rest of the entry that is
  there (the entry exists: the keys of the report were set from the same list); on success
  it replaces the entry.
\<close>

definition workerCallback :: "nat \<Rightarrow> region \<Rightarrow> error + string \<Rightarrow> execution \<Rightarrow> execution" where
  "workerCallback n dstRegion r x =
     (case r of
        Inl e \<Rightarrow>
          innerAsyncCallback n
            (x\<lparr>firstCloneImageError :=
                  (case firstCloneImageError x of None \<Rightarrow> Some e | Some f \<Rightarrow> Some f),
               results := AList.map_entry dstRegion (\<lambda>out. out\<lparr>error := Some e\<rparr>) (results x)\<rparr>)
      | Inr clonedImageId \<Rightarrow>
          asyncCallback None
            (x\<lparr>results :=
                  AList.update dstRegion
                    \<lparr>error = None, imageId = Some clonedImageId, success = True\<rparr> (results x)\<rparr>))"

text \<open>
  The workers run concurrently and finish in an order the code does not control: the
  schedule lists the indices of the workers that have finished, in the order in which
  their callbacks ran. A worker whose pipeline does not call back never finishes.
\<close>

fun finishWorkers :: "nat \<Rightarrow> nat list \<Rightarrow> execution \<Rightarrow> execution" where
  "finishWorkers n [] x = x"
| "finishWorkers n (i # schedule) x =
     (if repeatedStepCallback x then x
      else if i < length (workers x) then
        (case workers x ! i of
           (dstRegion, None) \<Rightarrow> finishWorkers n schedule x
         | (dstRegion, Some (r, log)) \<Rightarrow>
             finishWorkers n schedule (workerCallback n dstRegion r x))
      else finishWorkers n schedule x)"

text \<open>
  \<^verbatim>\<open>cloneImage\<close> with the validator of the cloner, the service as the source lookups
  see it (\<open>S\<close>) and as the worker of each index sees it (\<open>W\<close>), the number of polling rounds
  followed and the schedule.
\<close>

definition cloneImage :: "(config \<Rightarrow> string list) \<Rightarrow> remote \<Rightarrow> (nat \<Rightarrow> remote) \<Rightarrow> nat \<Rightarrow> nat list \<Rightarrow> config \<Rightarrow> execution" where
  "cloneImage configValidator S W rounds schedule cfg =
     (let x0 = \<lparr>results = initialResults (destinationRegions cfg), firstCloneImageError = None,
                completed = 0, delivered = [], repeatedStepCallback = False,
                sourceLog = [], workers = []\<rparr>
      in case configValidator cfg of
           v # vs \<Rightarrow> topCallback (Some (InvalidConfiguration (v # vs))) x0
         | [] \<Rightarrow>
             (case describeImage S (sourceImageId cfg) (sourceRegion cfg) [] of
                (Inl e, log1) \<Rightarrow> topCallback (Some e) (x0\<lparr>sourceLog := log1\<rparr>)
              | (Inr sourceImage, log1) \<Rightarrow>
                  (case describeImageAttribute S (sourceImageId cfg) (sourceRegion cfg)
                          LAUNCH_PERMISSION log1 of
                     (Inl e, log2) \<Rightarrow> topCallback (Some e) (x0\<lparr>sourceLog := log2\<rparr>)
                   | (Inr sourceImageLaunchPermissions, log2) \<Rightarrow>
                       (let x1 = x0\<lparr>sourceLog := log2,
                                    workers :=
                                      map (\<lambda>(i, r).
                                             (r, cloneImageToRegion rounds cfg (W i) sourceImage
                                                   sourceImageLaunchPermissions (sourceRegion cfg) r []))
                                        (enumerate 0 (destinationRegions cfg))\<rparr>
                        in if destinationRegions cfg = [] then asyncCallback None x1
                           else finishWorkers (length (destinationRegions cfg)) schedule x1))))"

section \<open>The entry point (index.js) and the cloner's construction\<close>

record imageCloner =
  this_config :: ref

definition ImageCloner :: "heap \<Rightarrow> ref \<Rightarrow> heap \<times> imageCloner" where
  "ImageCloner h c = (case fillConfigurationDefaults h c of (h', c') \<Rightarrow> (h', \<lparr>this_config = c'\<rparr>))"

definition index_cloneImage :: "remote \<Rightarrow> (nat \<Rightarrow> remote) \<Rightarrow> nat \<Rightarrow> nat list \<Rightarrow> heap \<Rightarrow> ref \<Rightarrow> heap \<times> execution" where
  "index_cloneImage S W rounds schedule h c =
     (case ImageCloner h c of
        (h', cloner) \<Rightarrow> (h', cloneImage validate S W rounds schedule (h' (this_config cloner))))"

section \<open>Reading a log\<close>

text \<open>The requests of a log, in order, and the step of the worker's pipeline a request belongs to.\<close>

fun requests :: "event list \<Rightarrow> request list" where
  "requests [] = []"
| "requests (Remote r # evs) = r # requests evs"
| "requests (SetTimeout d # evs) = requests evs"

fun pipelineStep :: "request \<Rightarrow> nat" where
  "pipelineStep (CopyImageReq t n i s d) = 1"
| "pipelineStep (DescribeImagesReq t ids) = 2"
| "pipelineStep (CreateTagsReq t ids tags) = 3"
| "pipelineStep (ModifyImageAttributeReq t a i p v) = 4"
| "pipelineStep (DescribeImageAttributeReq t a i) = 0"

section \<open>Concrete environments\<close>

text \<open>Inputs on which the definitions are run: an image, its grants, and a few services.\<close>

definition sourceImage1 :: image where
  "sourceImage1 =
     \<lparr>ImageId = ''ami-1'', State = Some ''available'', Name = ''name'',
      Description = ''description'', Tags = [\<lparr>Key = ''key'', Value = ''value''\<rparr>]\<rparr>"

definition grants1 :: "permission list" where
  "grants1 = [\<lparr>UserId = Some ''111222333444'', Group = Some ''all''\<rparr>]"

text \<open>A service that grants every request at once; a copy gets the id \<open>newId\<close>.\<close>

definition granting :: "string \<Rightarrow> remote" where
  "granting newId =
     \<lparr>copyImageR = (\<lambda>log req. Inr newId),
      describeImagesR = (\<lambda>log req. Inr [sourceImage1]),
      describeImageAttributeR = (\<lambda>log req. Inr [(''LaunchPermissions'', grants1)]),
      modifyImageAttributeR = (\<lambda>log req. Inr ()),
      createTagsR = (\<lambda>log req. Inr ())\<rparr>"

text \<open>Services that refuse one kind of request, every time, with the given cause.\<close>

definition refusingCopy :: "string \<Rightarrow> remote" where
  "refusingCopy cause = (granting ''ami-2'')\<lparr>copyImageR := (\<lambda>log req. Inl cause)\<rparr>"

definition refusingTags :: "string \<Rightarrow> remote" where
  "refusingTags cause = (granting ''ami-2'')\<lparr>createTagsR := (\<lambda>log req. Inl cause)\<rparr>"

text \<open>
  A service whose images are in the state \<open>st\<close> when first described and available from
  then on.
\<close>

definition firstInState :: "string option \<Rightarrow> remote" where
  "firstInState st =
     (granting ''ami-2'')
       \<lparr>describeImagesR :=
          (\<lambda>log req. if Remote req \<in> set log then Inr [sourceImage1]
                     else Inr [sourceImage1\<lparr>State := st\<rparr>])\<rparr>"

definition config1 :: config where
  "config1 =
     \<lparr>sourceImageId = ''ami-1'', sourceRegion = ''us-east-1'',
      destinationRegions = [''eu-west-1'', ''eu-west-2''],
      progressCheckIntervalInSeconds = Some 30, clientOptions = None\<rparr>"

text \<open>A service that refuses to describe any image.\<close>

definition refusingDescribe :: "string \<Rightarrow> remote" where
  "refusingDescribe cause = (granting ''ami-2'')\<lparr>describeImagesR := (\<lambda>log req. Inl cause)\<rparr>"

text \<open>
  Configurations: one that lacks the polling interval, one that the schema rejects, and one
  that names the same destination region twice.
\<close>

definition config0 :: config where
  "config0 = config1\<lparr>progressCheckIntervalInSeconds := None\<rparr>"

definition invalidConfig :: config where
  "invalidConfig = config1\<lparr>sourceImageId := []\<rparr>"

definition repeatedRegions :: config where
  "repeatedRegions = config1\<lparr>destinationRegions := [''eu-west-1'', ''eu-west-1'']\<rparr>"

text \<open>
  How the service treats the worker of each index: the first refused and the second
  granted, the first granted and the second refused, both refused for different causes.
\<close>

definition firstRefused :: "nat \<Rightarrow> remote" where
  "firstRefused i = (if i = 0 then refusingCopy ''denied'' else granting ''ami-2'')"

definition secondRefused :: "nat \<Rightarrow> remote" where
  "secondRefused i = (if i = 0 then granting ''ami-2'' else refusingCopy ''denied'')"

definition bothRefused :: "nat \<Rightarrow> remote" where
  "bothRefused i = (if i = 0 then refusingCopy ''A'' else refusingCopy ''B'')"

section \<open>What an entry of the report should hold\<close>

text \<open>
  An entry is consistent when exactly one of \<open>imageId\<close> and \<open>error\<close> is there, and
  \<open>success\<close> says which. The entry expected of a worker's run is the placeholder as long
  as the worker has not called back, its error once it has failed, its new image once it
  has succeeded.
\<close>

definition consistent :: "regionOutcome \<Rightarrow> bool" where
  "consistent out \<longleftrightarrow>
     (success out \<and> imageId out \<noteq> None \<and> error out = None)
     \<or> (\<not> success out \<and> imageId out = None \<and> error out \<noteq> None)"

fun expectedOutcome :: "((error + string) \<times> event list) option \<Rightarrow> regionOutcome" where
  "expectedOutcome None = placeholder"
| "expectedOutcome (Some (Inl e, log)) = \<lparr>error = Some e, imageId = None, success = False\<rparr>"
| "expectedOutcome (Some (Inr newId, log)) = \<lparr>error = None, imageId = Some newId, success = True\<rparr>"

section \<open>The requests each wrapper sends\<close>

text \<open>
  Each wrapper sends between one and three requests, all of them the same, and nothing
  else; the poller sends at least one request per round.
\<close>

lemma requests_append: "requests (a @ b) = requests a @ requests b"
  by (induction a rule: requests.induct) simp_all

lemma attempts_requests:
  "(\<And>l r l'. task l = (r, l') \<Longrightarrow> requests l' = requests l @ [req]) \<Longrightarrow>
   attempts n ms task log = (r, log') \<Longrightarrow>
   \<exists>k. 0 < k \<and> k \<le> max 1 n \<and> requests log' = requests log @ replicate k req"
proof (induction n ms task log arbitrary: r log' rule: attempts.induct)
  case (1 n ms task log)
  obtain r1 l1 where t: "task log = (r1, l1)" by (cases "task log")
  have l1: "requests l1 = requests log @ [req]" using "1.prems"(1)[OF t] .
  show ?case
  proof (cases r1)
    case (Inr a)
    with t "1.prems"(2) have "log' = l1" by simp
    with l1 have "requests log' = requests log @ replicate 1 req" by simp
    then show ?thesis by (intro exI[of _ 1]) simp
  next
    case (Inl e)
    define l2 where "l2 = (if 0 < ms then l1 @ [SetTimeout (Some ms)] else l1)"
    have rq: "requests l2 = requests log @ [req]" using l1 by (simp add: l2_def requests_append)
    from Inl t "1.prems"(2) have run: "attempts (Suc n) ms task l2 = (r, log')"
      by (simp add: l2_def)
    have "\<exists>k. 0 < k \<and> k \<le> max 1 (Suc n) \<and> requests log' = requests l2 @ replicate k req"
      using "1.IH"[OF t[symmetric] Inl "1.prems"(1) run[unfolded l2_def]] unfolding l2_def .
    then obtain k where k: "0 < k" "k \<le> Suc n" "requests log' = requests l2 @ replicate k req"
      by auto
    have "requests log' = requests log @ replicate (Suc k) req"
      unfolding k(3) rq by (simp add: replicate_app_Cons_same)
    then show ?thesis using k(2) by (intro exI[of _ "Suc k"]) simp
  qed
next
  case (2 ms task log)
  then have "requests log' = requests log @ replicate 1 req" by simp
  then show ?case by (intro exI[of _ 1]) simp
next
  case (3 ms task log)
  then have "requests log' = requests log @ replicate 1 req" by simp
  then show ?case by (intro exI[of _ 1]) simp
qed

lemma retry_requests:
  assumes task: "\<And>l r l'. task l = (r, l') \<Longrightarrow> requests l' = requests l @ [req]"
    and run: "retry retryConfig task log = (r, log')"
  shows "\<exists>k. 0 < k \<and> k \<le> 3 \<and> requests log' = requests log @ replicate k req"
  using attempts_requests[of task req 3 100 log r log'] task run
  by (simp add: retry_def retryConfig_def)

lemma send_requests: "send f req l = (r, l') \<Longrightarrow> requests l' = requests l @ [req]"
  by (auto simp: send_def requests_append)

lemma copyImage_requests:
  assumes "copyImage R i n d s t log = (r, log')"
  shows "\<exists>k. 0 < k \<and> k \<le> 3 \<and> requests log' = requests log @ replicate k (CopyImageReq t n i s d)"
  using assms unfolding copyImage_def
  by (elim retry_requests[rotated]) (auto split: prod.splits sum.splits dest: send_requests)

lemma describeImage_requests:
  assumes "describeImage R i t log = (r, log')"
  shows "\<exists>k. 0 < k \<and> k \<le> 3 \<and> requests log' = requests log @ replicate k (DescribeImagesReq t [i])"
proof -
  obtain r0 where "retry retryConfig (send (describeImagesR R) (DescribeImagesReq t [i])) log = (r0, log')"
    using assms unfolding describeImage_def by (auto split: prod.splits sum.splits list.splits)
  then show ?thesis by (elim retry_requests[rotated]) (rule send_requests)
qed

lemma tagImage_requests:
  assumes "tagImage R i t tags log = (r, log')"
  shows "\<exists>k. 0 < k \<and> k \<le> 3 \<and> requests log' = requests log @ replicate k (CreateTagsReq t [i] tags)"
proof -
  obtain r0 where "retry retryConfig
             (\<lambda>l. case send (createTagsR R) (CreateTagsReq t [i] tags) l of
                     (Inl e, l') \<Rightarrow> (Inl (CallFailed ''createTags'' e), l')
                   | (Inr u, l') \<Rightarrow> (Inr u, l')) log = (r0, log')"
    using assms unfolding tagImage_def by (auto split: prod.splits sum.splits)
  then show ?thesis
    by (elim retry_requests[rotated]) (auto split: prod.splits sum.splits dest: send_requests)
qed

lemma launchPermission_property:
  "tableLookup modifyImageAttributesProperty LAUNCH_PERMISSION = Some (OwnString ''LaunchPermission'')"
  by (simp add: tableLookup_def modifyImageAttributesProperty_def LAUNCH_PERMISSION_def)

lemma modifyImageAttribute_requests:
  assumes "modifyImageAttribute R i t LAUNCH_PERMISSION v log = (r, log')"
  shows "\<exists>k. 0 < k \<and> k \<le> 3 \<and> requests log' = requests log @
           replicate k (ModifyImageAttributeReq t LAUNCH_PERMISSION i (OwnString ''LaunchPermission'') v)"
proof -
  obtain r0 where "retry retryConfig
          (send (modifyImageAttributeR R)
             (ModifyImageAttributeReq t LAUNCH_PERMISSION i (OwnString ''LaunchPermission'') v)) log = (r0, log')"
    using assms unfolding modifyImageAttribute_def
    by (auto simp: launchPermission_property split: prod.splits sum.splits)
  then show ?thesis by (elim retry_requests[rotated]) (rule send_requests)
qed

lemma await_requests:
  "awaitImageCopyCompletion rounds cfg R i t log = Some (r, log') \<Longrightarrow>
   \<exists>k. 0 < k \<and> k \<le> 3 * rounds \<and> requests log' = requests log @ replicate k (DescribeImagesReq t [i])"
proof (induction rounds arbitrary: log)
  case 0
  then show ?case by simp
next
  case (Suc rounds)
  define l0 where "l0 = log @ [SetTimeout (map_option (\<lambda>s. s * 1000) (progressCheckIntervalInSeconds cfg))]"
  obtain r1 l1 where d: "describeImage R i t l0 = (r1, l1)" by (cases "describeImage R i t l0")
  have l0: "requests l0 = requests log" by (simp add: l0_def requests_append)
  from describeImage_requests[OF d] l0
  obtain k where k: "0 < k" "k \<le> 3" "requests l1 = requests log @ replicate k (DescribeImagesReq t [i])"
    by auto
  have step: "(case r1 of Inl e \<Rightarrow> Some (Some e, l1)
                | Inr img \<Rightarrow> if leftPending (State img) then Some (None, l1)
                             else awaitImageCopyCompletion rounds cfg R i t l1) = Some (r, log')"
    using Suc.prems d unfolding l0_def by simp
  show ?case
  proof (cases r1)
    case (Inl e)
    with step have "log' = l1" by simp
    then show ?thesis using k by (intro exI[of _ k]) simp
  next
    case (Inr img)
    show ?thesis
    proof (cases "leftPending (State img)")
      case True
      with step Inr have "log' = l1" by simp
      then show ?thesis using k by (intro exI[of _ k]) simp
    next
      case False
      with step Inr have "awaitImageCopyCompletion rounds cfg R i t l1 = Some (r, log')" by simp
      from Suc.IH[OF this] obtain k' where k': "0 < k'" "k' \<le> 3 * rounds"
        "requests log' = requests l1 @ replicate k' (DescribeImagesReq t [i])" by blast
      have "requests log' = requests log @ replicate (k + k') (DescribeImagesReq t [i])"
        using k(3) k'(3) by (simp add: replicate_add)
      moreover have "0 < k + k'" "k + k' \<le> 3 * Suc rounds" using k k' by auto
      ultimately show ?thesis by blast
    qed
  qed
qed


lemma steps_sorted:
  "sorted (replicate a (1::nat) @ replicate b 2 @ replicate c 3 @ replicate d 4)"
  by (auto simp: sorted_append)

lemma steps_set:
  "0 < a \<Longrightarrow>
   set (replicate a (1::nat) @ replicate b 2 @ replicate c 3 @ replicate d 4) =
     {1} \<union> (if 0 < b then {2} else {}) \<union> (if 0 < c then {3} else {}) \<union> (if 0 < d then {4} else {})"
  by auto

section \<open>The poller's log\<close>

text \<open>
  A poller that has called back within some number of rounds gives the same result when
  more rounds are followed.
\<close>

lemma await_more_rounds:
  "awaitImageCopyCompletion rounds cfg R newId region log = Some r \<Longrightarrow>
   awaitImageCopyCompletion (rounds + extra) cfg R newId region log = Some r"
proof (induction rounds arbitrary: log)
  case 0
  then show ?case by simp
next
  case (Suc rounds)
  then show ?case by (auto split: prod.splits sum.splits if_splits)
qed

section \<open>The callbacks, field by field\<close>

lemma asyncCallback_simps:
  "results (asyncCallback e x) = results x"
  "workers (asyncCallback e x) = workers x"
  "completed (asyncCallback e x) = completed x"
  "firstCloneImageError (asyncCallback e x) = firstCloneImageError x"
  "delivered (asyncCallback e x) = (if delivered x = [] then [(e, results x)] else delivered x)"
  "repeatedStepCallback (asyncCallback e x) = (repeatedStepCallback x \<or> delivered x \<noteq> [])"
  by (simp_all add: asyncCallback_def topCallback_def)

lemma innerAsyncCallback_simps:
  "results (innerAsyncCallback n x) = results x"
  "workers (innerAsyncCallback n x) = workers x"
  "completed (innerAsyncCallback n x) = Suc (completed x)"
  "firstCloneImageError (innerAsyncCallback n x) = firstCloneImageError x"
  "delivered (innerAsyncCallback n x) =
     (if Suc (completed x) = n \<and> delivered x = [] then [(firstCloneImageError x, results x)]
      else delivered x)"
  "repeatedStepCallback (innerAsyncCallback n x) =
     (repeatedStepCallback x \<or> (Suc (completed x) = n \<and> delivered x \<noteq> []))"
  by (simp_all add: innerAsyncCallback_def Let_def asyncCallback_simps)

lemma workerCallback_Inl:
  "results (workerCallback n r (Inl e) x) = AList.map_entry r (\<lambda>out. out\<lparr>error := Some e\<rparr>) (results x)"
  "workers (workerCallback n r (Inl e) x) = workers x"
  "completed (workerCallback n r (Inl e) x) = Suc (completed x)"
  "firstCloneImageError (workerCallback n r (Inl e) x) =
     (case firstCloneImageError x of None \<Rightarrow> Some e | Some f \<Rightarrow> Some f)"
  "delivered (workerCallback n r (Inl e) x) =
     (if Suc (completed x) = n \<and> delivered x = []
      then [(case firstCloneImageError x of None \<Rightarrow> Some e | Some f \<Rightarrow> Some f,
             AList.map_entry r (\<lambda>out. out\<lparr>error := Some e\<rparr>) (results x))]
      else delivered x)"
  "repeatedStepCallback (workerCallback n r (Inl e) x) =
     (repeatedStepCallback x \<or> (Suc (completed x) = n \<and> delivered x \<noteq> []))"
  by (simp_all add: workerCallback_def innerAsyncCallback_simps)

lemma workerCallback_Inr:
  "results (workerCallback n r (Inr i) x) =
     AList.update r \<lparr>error = None, imageId = Some i, success = True\<rparr> (results x)"
  "workers (workerCallback n r (Inr i) x) = workers x"
  "completed (workerCallback n r (Inr i) x) = completed x"
  "firstCloneImageError (workerCallback n r (Inr i) x) = firstCloneImageError x"
  "delivered (workerCallback n r (Inr i) x) =
     (if delivered x = []
      then [(None, AList.update r \<lparr>error = None, imageId = Some i, success = True\<rparr> (results x))]
      else delivered x)"
  "repeatedStepCallback (workerCallback n r (Inr i) x) =
     (repeatedStepCallback x \<or> delivered x \<noteq> [])"
  by (simp_all add: workerCallback_def asyncCallback_simps)

lemma workerCallback_workers: "workers (workerCallback n r res x) = workers x"
  by (cases res) (simp_all add: workerCallback_Inl workerCallback_Inr)

lemma workerCallback_delivered:
  "p \<in> set (delivered (workerCallback n r res x)) \<Longrightarrow>
   p \<in> set (delivered x) \<or> snd p = results (workerCallback n r res x)"
  by (cases res) (auto simp: workerCallback_Inl workerCallback_Inr split: if_splits)

lemma workerCallback_other:
  "r' \<noteq> r \<Longrightarrow> map_of (results (workerCallback n r res x)) r' = map_of (results x) r'"
  by (cases res) (simp_all add: workerCallback_Inl workerCallback_Inr AList.map_of_map_entry AList.update_conv')

lemma workerCallback_entry:
  "map_of (results x) r = Some placeholder \<Longrightarrow>
   map_of (results (workerCallback n r res x)) r = Some (expectedOutcome (Some (res, log)))"
  by (cases res)
     (simp_all add: workerCallback_Inl workerCallback_Inr AList.map_of_map_entry
        AList.update_conv' placeholder_def)

lemma finishWorkers_workers: "workers (finishWorkers n sched x) = workers x"
  by (induction sched arbitrary: x) (auto simp: workerCallback_workers split: prod.splits option.splits)

lemma finishWorkers_halted: "repeatedStepCallback x \<Longrightarrow> finishWorkers n sched x = x"
  by (cases sched) simp_all

section \<open>The keys of the report\<close>

text \<open>
  The report starts with one placeholder per distinct destination region, in the order of
  their first mention, and no callback adds or removes a key.
\<close>

lemma map_entry_keys: "map fst (AList.map_entry k f xs) = map fst xs"
  by (induction xs) auto

lemma keyBy_fold_keys:
  "fst ` set (fold (\<lambda>r acc. AList.update r r acc) rs acc) = fst ` set acc \<union> set rs"
proof (induction rs arbitrary: acc)
  case Nil
  then show ?case by simp
next
  case (Cons a rs)
  have "fst ` set (fold (\<lambda>r acc. AList.update r r acc) rs (AList.update a a acc)) =
        fst ` set (AList.update a a acc) \<union> set rs" by (rule Cons.IH)
  then show ?case unfolding AList.dom_update by auto
qed

lemma keyBy_fold_distinct:
  "distinct (map fst acc) \<Longrightarrow> distinct (map fst (fold (\<lambda>r acc. AList.update r r acc) rs acc))"
  by (induction rs arbitrary: acc) (auto simp: AList.distinct_update)

lemma keyBy_fold_order:
  "distinct rs \<Longrightarrow> set rs \<inter> set (map fst acc) = {} \<Longrightarrow>
   map fst (fold (\<lambda>r acc. AList.update r r acc) rs acc) = map fst acc @ rs"
proof (induction rs arbitrary: acc)
  case Nil
  then show ?case by simp
next
  case (Cons a rs)
  have k: "map fst (AList.update a a acc) = map fst acc @ [a]"
    using Cons.prems(2) by (simp add: AList.update_keys)
  have "set rs \<inter> set (map fst (AList.update a a acc)) = {}"
    unfolding k using Cons.prems by auto
  with Cons.IH[of "AList.update a a acc"] Cons.prems(1) k show ?case by simp
qed

lemma initialResults_keys:
  "set (map fst (initialResults rs)) = set rs"
  "distinct (map fst (initialResults rs))"
  "distinct rs \<Longrightarrow> map fst (initialResults rs) = rs"
proof -
  have m: "map fst (initialResults rs) = map fst (keyBy rs)"
    by (simp add: initialResults_def case_prod_beta comp_def)
  show "set (map fst (initialResults rs)) = set rs"
    unfolding m keyBy_def using keyBy_fold_keys[of rs "[]"] by simp
  show "distinct (map fst (initialResults rs))"
    unfolding m keyBy_def using keyBy_fold_distinct[of "[]" rs] by simp
  show "distinct rs \<Longrightarrow> map fst (initialResults rs) = rs"
    unfolding m keyBy_def using keyBy_fold_order[of rs "[]"] by simp
qed

lemma initialResults_placeholders: "snd ` set (initialResults rs) \<subseteq> {placeholder}"
  by (auto simp: initialResults_def)

lemma initialResults_lookup: "r \<in> set rs \<Longrightarrow> map_of (initialResults rs) r = Some placeholder"
proof -
  assume "r \<in> set rs"
  then have "r \<in> fst ` set (initialResults rs)" using initialResults_keys(1)[of rs] by simp
  then obtain out where "(r, out) \<in> set (initialResults rs)" by auto
  moreover from this have "out = placeholder" using initialResults_placeholders[of rs] by auto
  ultimately show ?thesis using initialResults_keys(2)[of rs] by simp
qed

lemma initialResults_consistent:
  "map_of (initialResults rs) r = Some out \<Longrightarrow> consistent out"
proof -
  assume "map_of (initialResults rs) r = Some out"
  then have "(r, out) \<in> set (initialResults rs)" by (rule map_of_SomeD)
  then have "out = placeholder" using initialResults_placeholders[of rs] by auto
  then show ?thesis by (simp add: consistent_def placeholder_def)
qed

lemma workerCallback_keys:
  "r \<in> fst ` set (results x) \<Longrightarrow> map fst (results (workerCallback n r res x)) = map fst (results x)"
  by (cases res) (auto simp: workerCallback_Inl workerCallback_Inr map_entry_keys AList.update_keys)

lemma finishWorkers_keys:
  "\<forall>p \<in> set (workers x). fst p \<in> fst ` set (results x) \<Longrightarrow>
   map fst (results (finishWorkers n sched x)) = map fst (results x)"
proof (induction sched arbitrary: x)
  case Nil
  then show ?case by simp
next
  case (Cons i sched)
  show ?case
  proof (cases "\<not> repeatedStepCallback x \<and> i < length (workers x) \<and> snd (workers x ! i) \<noteq> None")
    case True
    then obtain r res log where w: "workers x ! i = (r, Some (res, log))"
      by (cases "workers x ! i") auto
    with True Cons.prems have r: "r \<in> fst ` set (results x)"
      by (metis fst_conv nth_mem)
    let ?x = "workerCallback n r res x"
    have k: "map fst (results ?x) = map fst (results x)" by (rule workerCallback_keys[OF r])
    have "\<forall>p \<in> set (workers ?x). fst p \<in> fst ` set (results ?x)"
      using Cons.prems k by (metis list.set_map workerCallback_workers)
    from Cons.IH[OF this] k have "map fst (results (finishWorkers n sched ?x)) = map fst (results x)"
      by simp
    then show ?thesis using True w by simp
  next
    case False
    then show ?thesis using Cons.IH[OF Cons.prems]
      by (auto split: prod.splits option.splits)
  qed
qed

lemma finishWorkers_delivered_keys:
  "\<forall>p \<in> set (workers x). fst p \<in> fst ` set (results x) \<Longrightarrow>
   \<forall>p \<in> set (delivered x). map fst (snd p) = map fst (results x) \<Longrightarrow>
   \<forall>p \<in> set (delivered (finishWorkers n sched x)). map fst (snd p) = map fst (results x)"
proof (induction sched arbitrary: x)
  case Nil
  then show ?case by simp
next
  case (Cons i sched)
  show ?case
  proof (cases "\<not> repeatedStepCallback x \<and> i < length (workers x) \<and> snd (workers x ! i) \<noteq> None")
    case True
    then obtain r res log where w: "workers x ! i = (r, Some (res, log))"
      by (cases "workers x ! i") auto
    with True Cons.prems(1) have r: "r \<in> fst ` set (results x)"
      by (metis fst_conv nth_mem)
    let ?x = "workerCallback n r res x"
    have k: "map fst (results ?x) = map fst (results x)" by (rule workerCallback_keys[OF r])
    have 1: "\<forall>p \<in> set (workers ?x). fst p \<in> fst ` set (results ?x)"
      using Cons.prems(1) k by (metis list.set_map workerCallback_workers)
    have 2: "\<forall>p \<in> set (delivered ?x). map fst (snd p) = map fst (results ?x)"
      using Cons.prems(2) k workerCallback_delivered[of _ n r res x] by metis
    from Cons.IH[OF 1 2] k show ?thesis using True w by simp
  next
    case False
    then show ?thesis using Cons.IH[OF Cons.prems] Cons.prems(2)
      by (auto split: prod.splits option.splits)
  qed
qed

lemma finishWorkers_untouched:
  "\<forall>i \<in> set sched. i < length (workers x) \<longrightarrow> fst (workers x ! i) \<noteq> r \<Longrightarrow>
   map_of (results (finishWorkers n sched x)) r = map_of (results x) r"
proof (induction sched arbitrary: x)
  case Nil
  then show ?case by simp
next
  case (Cons i sched)
  show ?case
  proof (cases "\<not> repeatedStepCallback x \<and> i < length (workers x) \<and> snd (workers x ! i) \<noteq> None")
    case True
    then obtain r' res log where w: "workers x ! i = (r', Some (res, log))"
      by (cases "workers x ! i") auto
    with True Cons.prems have ne: "r \<noteq> r'" by auto
    let ?x = "workerCallback n r' res x"
    have "\<forall>i \<in> set sched. i < length (workers ?x) \<longrightarrow> fst (workers ?x ! i) \<noteq> r"
      using Cons.prems by (simp add: workerCallback_workers)
    from Cons.IH[OF this] workerCallback_other[OF ne, of n res x]
    show ?thesis using True w by simp
  next
    case False
    have "\<forall>i \<in> set sched. i < length (workers x) \<longrightarrow> fst (workers x ! i) \<noteq> r"
      using Cons.prems by simp
    from Cons.IH[OF this] False show ?thesis
      by (auto split: prod.splits option.splits)
  qed
qed

section \<open>The two ways a call of cloneImage goes\<close>

text \<open>
  Either a step before the workers fails, and the caller's callback gets that error with
  the untouched report, or the workers are started with the report of placeholders.
\<close>

lemma cloneImage_cases:
  obtains (stopped) e log where
      "cloneImage V S W rounds schedule cfg =
         \<lparr>results = initialResults (destinationRegions cfg), firstCloneImageError = None,
          completed = 0, delivered = [(Some e, initialResults (destinationRegions cfg))],
          repeatedStepCallback = False, sourceLog = log, workers = []\<rparr>"
  | (started) img grants log where
      "V cfg = []"
      "cloneImage V S W rounds schedule cfg =
         (if destinationRegions cfg = []
          then asyncCallback None
            \<lparr>results = initialResults (destinationRegions cfg), firstCloneImageError = None,
             completed = 0, delivered = [], repeatedStepCallback = False, sourceLog = log,
             workers = []\<rparr>
          else finishWorkers (length (destinationRegions cfg)) schedule
            \<lparr>results = initialResults (destinationRegions cfg), firstCloneImageError = None,
             completed = 0, delivered = [], repeatedStepCallback = False, sourceLog = log,
             workers = map (\<lambda>(i, r). (r, cloneImageToRegion rounds cfg (W i) img grants
                                         (sourceRegion cfg) r []))
                         (enumerate 0 (destinationRegions cfg))\<rparr>)"
proof (cases "V cfg")
  case (Cons v vs)
  then show ?thesis
    by (intro stopped[where e = "InvalidConfiguration (v # vs)" and log = "[]"])
       (simp add: cloneImage_def topCallback_def)
next
  case Nil
  obtain d l1 where d: "describeImage S (sourceImageId cfg) (sourceRegion cfg) [] = (d, l1)"
    by (cases "describeImage S (sourceImageId cfg) (sourceRegion cfg) []")
  show ?thesis
  proof (cases d)
    case (Inl e)
    then show ?thesis using Nil d
      by (intro stopped[where e = e and log = l1]) (simp add: cloneImage_def topCallback_def)
  next
    case (Inr img)
    obtain a l2 where a: "describeImageAttribute S (sourceImageId cfg) (sourceRegion cfg)
                 LAUNCH_PERMISSION l1 = (a, l2)"
      by (cases "describeImageAttribute S (sourceImageId cfg) (sourceRegion cfg) LAUNCH_PERMISSION l1")
    show ?thesis
    proof (cases a)
      case (Inl e)
      then show ?thesis using Nil d Inr a
        by (intro stopped[where e = e and log = l2]) (simp add: cloneImage_def topCallback_def)
    next
      case (Inr grants)
      show ?thesis using Nil d \<open>d = Inr img\<close> a Inr
        by (intro started[where img = img and grants = grants and log = l2])
           (simp_all add: cloneImage_def Let_def)
    qed
  qed
qed

lemma started_workers:
  "map fst (map (\<lambda>(i, r). (r, f i r)) (enumerate 0 rs)) = rs"
  by (simp add: case_prod_beta comp_def)

lemma cloneImage_report_main:
  "map fst (results (cloneImage configValidator S W rounds schedule cfg)) =
     map fst (initialResults (destinationRegions cfg))
   \<and> (\<forall>p \<in> set (delivered (cloneImage configValidator S W rounds schedule cfg)).
        map fst (snd p) = map fst (initialResults (destinationRegions cfg)))
   \<and> (\<forall>r \<in> set (destinationRegions cfg).
        (workers (cloneImage configValidator S W rounds schedule cfg) = []
         \<or> (\<forall>i \<in> set schedule. i < length (destinationRegions cfg) \<longrightarrow>
               destinationRegions cfg ! i \<noteq> r)) \<longrightarrow>
        map_of (results (cloneImage configValidator S W rounds schedule cfg)) r = Some placeholder)"
proof -
  define X where "X = cloneImage configValidator S W rounds schedule cfg"
  define regions where "regions = destinationRegions cfg"
  have "map fst (results X) = map fst (initialResults regions)
     \<and> (\<forall>p \<in> set (delivered X). map fst (snd p) = map fst (initialResults regions))
     \<and> (\<forall>r \<in> set regions.
          (workers X = [] \<or> (\<forall>i \<in> set schedule. i < length regions \<longrightarrow> regions ! i \<noteq> r)) \<longrightarrow>
          map_of (results X) r = Some placeholder)"
  proof (cases rule: cloneImage_cases[of configValidator S W rounds schedule cfg])
    case (stopped e log)
    then show ?thesis unfolding X_def regions_def by (simp add: initialResults_lookup)
  next
    case (started img grants log)
    show ?thesis
    proof (cases "destinationRegions cfg = []")
      case True
      then show ?thesis using started(2) unfolding X_def regions_def
        by (simp add: asyncCallback_simps)
    next
      case False
      define x1 where "x1 =
            \<lparr>results = initialResults (destinationRegions cfg), firstCloneImageError = None,
             completed = 0, delivered = [], repeatedStepCallback = False, sourceLog = log,
             workers = map (\<lambda>(i, r). (r, cloneImageToRegion rounds cfg (W i) img grants
                                         (sourceRegion cfg) r []))
                         (enumerate 0 (destinationRegions cfg))\<rparr>"
      have X: "X = finishWorkers (length regions) schedule x1"
        using started(2) False unfolding X_def regions_def x1_def by simp
      have res: "results x1 = initialResults regions" and del: "delivered x1 = []"
        unfolding x1_def regions_def by simp_all
      have ws: "map fst (workers x1) = regions"
        unfolding x1_def regions_def using started_workers[of _ "destinationRegions cfg"]
        by (simp add: case_prod_beta comp_def)
      then have len: "length (workers x1) = length regions" by (metis length_map)
      have nth: "\<And>i. i < length regions \<Longrightarrow> fst (workers x1 ! i) = regions ! i"
        using ws len by (metis nth_map)
      have cover: "\<forall>p \<in> set (workers x1). fst p \<in> fst ` set (results x1)"
        using ws initialResults_keys(1)[of regions] unfolding res by (metis image_eqI list.set_map)
      have k: "map fst (results X) = map fst (initialResults regions)"
        unfolding X using finishWorkers_keys[OF cover] res by simp
      have dk: "\<forall>p \<in> set (delivered X). map fst (snd p) = map fst (initialResults regions)"
        unfolding X using finishWorkers_delivered_keys[OF cover, of n] del res
        by (metis empty_iff empty_set finishWorkers_delivered_keys[OF cover])
      have ph: "\<forall>r \<in> set regions.
          (workers X = [] \<or> (\<forall>i \<in> set schedule. i < length regions \<longrightarrow> regions ! i \<noteq> r)) \<longrightarrow>
          map_of (results X) r = Some placeholder"
      proof (intro ballI impI)
        fix r assume r: "r \<in> set regions"
          and h: "workers X = [] \<or> (\<forall>i \<in> set schedule. i < length regions \<longrightarrow> regions ! i \<noteq> r)"
        have "workers X \<noteq> []" unfolding X finishWorkers_workers using len False regions_def by auto
        with h have "\<forall>i \<in> set schedule. i < length (workers x1) \<longrightarrow> fst (workers x1 ! i) \<noteq> r"
          using nth len by auto
        from finishWorkers_untouched[OF this] show "map_of (results X) r = Some placeholder"
          unfolding X res using initialResults_lookup[OF r] by simp
      qed
      show ?thesis using k dk ph by blast
    qed
  qed
  then show ?thesis unfolding X_def regions_def .
qed

section \<open>Entries when every region has one worker\<close>

lemma distinct_regions_nth:
  "distinct (map fst ws) \<Longrightarrow> i < length ws \<Longrightarrow> j < length ws \<Longrightarrow> i \<noteq> j \<Longrightarrow>
   fst (ws ! i) \<noteq> fst (ws ! j)"
  by (metis distinct_conv_nth length_map nth_map)

lemma workerCallback_consistent:
  assumes a: "map_of (results x) r = Some placeholder"
    and b: "\<forall>r out. map_of (results x) r = Some out \<longrightarrow> consistent out"
  shows "\<forall>r' out. map_of (results (workerCallback n r res x)) r' = Some out \<longrightarrow> consistent out"
proof (intro allI impI)
  fix r' out assume h: "map_of (results (workerCallback n r res x)) r' = Some out"
  show "consistent out"
  proof (cases "r' = r")
    case True
    with h workerCallback_entry[OF a, of n res "[]"] have "out = expectedOutcome (Some (res, []))"
      by simp
    then show ?thesis by (cases res) (simp_all add: consistent_def)
  next
    case False
    with h workerCallback_other[OF False, of n res x] b show ?thesis by simp
  qed
qed

lemma finishWorkers_consistent:
  assumes "distinct (map fst (workers x))" and "distinct sched"
    and "\<forall>i \<in> set sched. i < length (workers x) \<longrightarrow>
           map_of (results x) (fst (workers x ! i)) = Some placeholder"
    and "\<forall>r out. map_of (results x) r = Some out \<longrightarrow> consistent out"
    and "\<forall>p \<in> set (delivered x). \<forall>r out. map_of (snd p) r = Some out \<longrightarrow> consistent out"
  shows "(\<forall>r out. map_of (results (finishWorkers n sched x)) r = Some out \<longrightarrow> consistent out)
       \<and> (\<forall>p \<in> set (delivered (finishWorkers n sched x)).
            \<forall>r out. map_of (snd p) r = Some out \<longrightarrow> consistent out)"
  using assms
proof (induction sched arbitrary: x)
  case Nil
  then show ?case by simp
next
  case (Cons i sched)
  have rest: "\<forall>j \<in> set sched. j < length (workers x) \<longrightarrow>
           map_of (results x) (fst (workers x ! j)) = Some placeholder"
    using Cons.prems(3) by simp
  have dsched: "distinct sched" and inot: "i \<notin> set sched" using Cons.prems(2) by simp_all
  show ?case
  proof (cases "\<not> repeatedStepCallback x \<and> i < length (workers x) \<and> snd (workers x ! i) \<noteq> None")
    case True
    then obtain r res log where w: "workers x ! i = (r, Some (res, log))"
      by (cases "workers x ! i") auto
    let ?x = "workerCallback n r res x"
    have ph: "map_of (results x) r = Some placeholder"
      using Cons.prems(3) True w by (metis fst_conv list.set_intros(1))
    have 1: "distinct (map fst (workers ?x))" using Cons.prems(1) by (simp add: workerCallback_workers)
    have 3: "\<forall>j \<in> set sched. j < length (workers ?x) \<longrightarrow>
           map_of (results ?x) (fst (workers ?x ! j)) = Some placeholder"
    proof (intro ballI impI)
      fix j assume j: "j \<in> set sched" "j < length (workers ?x)"
      then have jl: "j < length (workers x)" by (simp add: workerCallback_workers)
      have "j \<noteq> i" using j(1) inot by auto
      then have "fst (workers x ! j) \<noteq> r"
        using distinct_regions_nth[OF Cons.prems(1) jl _ \<open>j \<noteq> i\<close>] True w by simp
      then show "map_of (results ?x) (fst (workers ?x ! j)) = Some placeholder"
        using rest j(1) jl by (simp add: workerCallback_workers workerCallback_other)
    qed
    have 4: "\<forall>r out. map_of (results ?x) r = Some out \<longrightarrow> consistent out"
      by (rule workerCallback_consistent[OF ph Cons.prems(4)])
    have 5: "\<forall>p \<in> set (delivered ?x). \<forall>r out. map_of (snd p) r = Some out \<longrightarrow> consistent out"
      using Cons.prems(5) 4 workerCallback_delivered[of _ n r res x] by metis
    from Cons.IH[OF 1 dsched 3 4 5] show ?thesis using True w by simp
  next
    case False
    from Cons.IH[OF Cons.prems(1) dsched rest Cons.prems(4,5)] False Cons.prems(4,5)
    show ?thesis by (auto split: prod.splits option.splits)
  qed
qed

lemma finishWorkers_outcomes:
  assumes "distinct (map fst (workers x))" and "distinct sched"
    and "\<forall>i \<in> set sched. i < length (workers x) \<longrightarrow>
           map_of (results x) (fst (workers x ! i)) = Some placeholder"
    and "\<not> repeatedStepCallback (finishWorkers n sched x)"
  shows "\<forall>i \<in> set sched. i < length (workers x) \<longrightarrow>
           map_of (results (finishWorkers n sched x)) (fst (workers x ! i)) =
             Some (expectedOutcome (snd (workers x ! i)))"
  using assms
proof (induction sched arbitrary: x)
  case Nil
  then show ?case by simp
next
  case (Cons i sched)
  have live: "\<not> repeatedStepCallback x"
    using Cons.prems(4) finishWorkers_halted[of x n "i # sched"] by auto
  have rest: "\<forall>j \<in> set sched. j < length (workers x) \<longrightarrow>
           map_of (results x) (fst (workers x ! j)) = Some placeholder"
    using Cons.prems(3) by simp
  have dsched: "distinct sched" and inot: "i \<notin> set sched" using Cons.prems(2) by simp_all
  have apart: "\<And>j. j \<in> set sched \<Longrightarrow> j < length (workers x) \<Longrightarrow> i < length (workers x) \<Longrightarrow>
                  fst (workers x ! j) \<noteq> fst (workers x ! i)"
    using distinct_regions_nth[OF Cons.prems(1)] inot by metis
  show ?case
  proof (cases "i < length (workers x) \<and> snd (workers x ! i) \<noteq> None")
    case True
    then obtain r res log where w: "workers x ! i = (r, Some (res, log))"
      by (cases "workers x ! i") auto
    let ?x = "workerCallback n r res x"
    have fin: "finishWorkers n (i # sched) x = finishWorkers n sched ?x"
      using True w live by simp
    have ph: "map_of (results x) r = Some placeholder"
      using Cons.prems(3) True w by (metis fst_conv list.set_intros(1))
    have 1: "distinct (map fst (workers ?x))" using Cons.prems(1) by (simp add: workerCallback_workers)
    have 3: "\<forall>j \<in> set sched. j < length (workers ?x) \<longrightarrow>
           map_of (results ?x) (fst (workers ?x ! j)) = Some placeholder"
    proof (intro ballI impI)
      fix j assume j: "j \<in> set sched" "j < length (workers ?x)"
      then have jl: "j < length (workers x)" by (simp add: workerCallback_workers)
      have "fst (workers x ! j) \<noteq> r" using apart[OF j(1) jl] True w by simp
      then show "map_of (results ?x) (fst (workers ?x ! j)) = Some placeholder"
        using rest j(1) jl by (simp add: workerCallback_workers workerCallback_other)
    qed
    have 4: "\<not> repeatedStepCallback (finishWorkers n sched ?x)" using Cons.prems(4) fin by simp
    have tail: "\<forall>j \<in> set sched. j < length (workers x) \<longrightarrow>
           map_of (results (finishWorkers n sched ?x)) (fst (workers x ! j)) =
             Some (expectedOutcome (snd (workers x ! j)))"
      using Cons.IH[OF 1 dsched 3 4] by (simp add: workerCallback_workers)
    have "\<forall>j \<in> set sched. j < length (workers ?x) \<longrightarrow> fst (workers ?x ! j) \<noteq> r"
      using apart True w by (simp add: workerCallback_workers)
    from finishWorkers_untouched[OF this]
    have "map_of (results (finishWorkers n sched ?x)) r = map_of (results ?x) r" .
    also have "\<dots> = Some (expectedOutcome (Some (res, log)))"
      by (rule workerCallback_entry[OF ph])
    finally have head: "map_of (results (finishWorkers n sched ?x)) (fst (workers x ! i)) =
             Some (expectedOutcome (snd (workers x ! i)))" using w by simp
    show ?thesis unfolding fin using head tail by simp
  next
    case False
    then have fin: "finishWorkers n (i # sched) x = finishWorkers n sched x"
      using live by (auto split: prod.splits option.splits)
    have 4: "\<not> repeatedStepCallback (finishWorkers n sched x)" using Cons.prems(4) fin by simp
    have tail: "\<forall>j \<in> set sched. j < length (workers x) \<longrightarrow>
           map_of (results (finishWorkers n sched x)) (fst (workers x ! j)) =
             Some (expectedOutcome (snd (workers x ! j)))"
      by (rule Cons.IH[OF Cons.prems(1) dsched rest 4])
    have head: "i < length (workers x) \<longrightarrow>
           map_of (results (finishWorkers n sched x)) (fst (workers x ! i)) =
             Some (expectedOutcome (snd (workers x ! i)))"
    proof
      assume il: "i < length (workers x)"
      with False have none: "snd (workers x ! i) = None" by blast
      have "\<forall>j \<in> set sched. j < length (workers x) \<longrightarrow> fst (workers x ! j) \<noteq> fst (workers x ! i)"
        using apart il by blast
      from finishWorkers_untouched[OF this]
      have "map_of (results (finishWorkers n sched x)) (fst (workers x ! i)) =
            map_of (results x) (fst (workers x ! i))" .
      then show "map_of (results (finishWorkers n sched x)) (fst (workers x ! i)) =
             Some (expectedOutcome (snd (workers x ! i)))"
        using Cons.prems(3) il none by simp
    qed
    show ?thesis unfolding fin using head tail by simp
  qed
qed

section \<open>When every worker fails\<close>

lemma finishWorkers_all_failed:
  assumes "\<forall>i \<in> set sched. i < length (workers x) \<and> (\<exists>e log. snd (workers x ! i) = Some (Inl e, log))"
    and "delivered x = []" and "\<not> repeatedStepCallback x"
    and "completed x + length sched \<le> n"
  shows "completed (finishWorkers n sched x) = completed x + length sched
       \<and> \<not> repeatedStepCallback (finishWorkers n sched x)
       \<and> firstCloneImageError (finishWorkers n sched x) =
           (case firstCloneImageError x of
              Some f \<Rightarrow> Some f
            | None \<Rightarrow> (case sched of [] \<Rightarrow> None
                       | i # s \<Rightarrow> (case snd (workers x ! i) of
                                     Some (Inl e, log) \<Rightarrow> Some e | _ \<Rightarrow> None)))
       \<and> delivered (finishWorkers n sched x) =
           (if sched \<noteq> [] \<and> completed x + length sched = n
            then [(firstCloneImageError (finishWorkers n sched x), results (finishWorkers n sched x))]
            else [])"
  using assms
proof (induction sched arbitrary: x)
  case Nil
  then show ?case by (simp split: option.splits)
next
  case (Cons i sched)
  from Cons.prems(1) obtain e log where il: "i < length (workers x)"
    and run: "snd (workers x ! i) = Some (Inl e, log)" by auto
  then obtain r where w: "workers x ! i = (r, Some (Inl e, log))" by (cases "workers x ! i") auto
  let ?x = "workerCallback n r (Inl e) x"
  have fin: "finishWorkers n (i # sched) x = finishWorkers n sched ?x"
    using il w Cons.prems(3) by simp
  have fce: "firstCloneImageError ?x =
      (case firstCloneImageError x of None \<Rightarrow> Some e | Some f \<Rightarrow> Some f)"
    by (simp add: workerCallback_Inl)
  show ?case
  proof (cases sched)
    case Nil
    then show ?thesis unfolding fin using Cons.prems(2,3) run
      by (simp add: workerCallback_Inl split: option.splits)
  next
    case (Cons j s)
    then have less: "Suc (completed x) \<noteq> n" using Cons.prems(4) by simp
    have 1: "\<forall>i \<in> set sched. i < length (workers ?x) \<and>
               (\<exists>e log. snd (workers ?x ! i) = Some (Inl e, log))"
      using Cons.prems(1) by (simp add: workerCallback_workers)
    have 2: "delivered ?x = []" using Cons.prems(2) less by (simp add: workerCallback_Inl)
    have 3: "\<not> repeatedStepCallback ?x" using Cons.prems(2,3) by (simp add: workerCallback_Inl)
    have 4: "completed ?x + length sched \<le> n" using Cons.prems(4) by (simp add: workerCallback_Inl)
    note ih = Cons.IH[OF 1 2 3 4]
    have c: "completed ?x = Suc (completed x)" by (simp add: workerCallback_Inl)
    show ?thesis unfolding fin using ih fce c run \<open>sched = j # s\<close>
      by (simp add: workerCallback_workers split: option.splits)
  qed
qed

section \<open>Unsupported attributes\<close>

text \<open>
  An attribute that is neither a key of the table nor a name every object inherits is
  refused before any request is sent, and \<open>launchPermission\<close> is never refused as
  unsupported.
\<close>

lemma modifyImageAttribute_unknown_attribute:
  "tableLookup modifyImageAttributesProperty attribute = None \<Longrightarrow>
   modifyImageAttribute R i t attribute v log =
     (Some (UnsupportedAttribute ''modifyImageAttribute'' attribute), log)"
  by (simp add: modifyImageAttribute_def)

lemma modifyImageAttribute_launchPermission_supported:
  "fst (modifyImageAttribute R i t LAUNCH_PERMISSION v log) \<noteq> Some (UnsupportedAttribute op a)"
  by (auto simp: modifyImageAttribute_def launchPermission_property split: prod.splits sum.splits)

lemma toString_property:
  "tableLookup modifyImageAttributesProperty ''toString'' = Some (Inherited ''toString'')"
  by (simp add: tableLookup_def modifyImageAttributesProperty_def objectPrototypeMembers_def)

section \<open>Claim C1: the error the caller receives\<close>

text \<open>
  Claim C1 says that the caller's callback always receives the report of every region, and
  an error exactly when the configuration is invalid, a source lookup failed or at least
  one worker failed. The code does not do this once a worker succeeds: the worker's
  callback then calls the step callback of the series instead of the inner callback of
  \<^verbatim>\<open>async.each\<close>, so the caller's callback runs at the first success, with no error.
  With two destination regions whose first worker fails and whose second succeeds, the
  caller receives no error when the failure comes first, and when the success comes first
  it receives no error and a report in which the first region is still the placeholder.
\<close>

theorem cloneImage_failure_unreported:
  "delivered (cloneImage validate (granting ''ami-2'') firstRefused 1 [0, 1] config1) =
     [(None,
       [(''eu-west-1'',
         \<lparr>error = Some (CallFailed ''copyImage'' ''denied''), imageId = None, success = False\<rparr>),
        (''eu-west-2'', \<lparr>error = None, imageId = Some ''ami-2'', success = True\<rparr>)])]
   \<and> delivered (cloneImage validate (granting ''ami-2'') firstRefused 1 [1, 0] config1) =
     [(None,
       [(''eu-west-1'', placeholder),
        (''eu-west-2'', \<lparr>error = None, imageId = Some ''ami-2'', success = True\<rparr>)])]"
  by code_simp

section \<open>Claim C2: the callback and the workers still running\<close>

text \<open>
  Claim C2 says that the caller's callback runs only after every worker has finished, and
  exactly once. In the code the first worker that succeeds ends the series: with two
  regions that both succeed, the caller's callback has already run when only the first
  worker has finished, with the second region's placeholder in the report, and when the
  second worker finishes it calls the step callback of the series a second time.
\<close>

theorem cloneImage_callback_before_workers_finish:
  "delivered (cloneImage validate (granting ''ami-2'') (\<lambda>i. granting ''ami-2'') 1 [0] config1) =
     [(None,
       [(''eu-west-1'', \<lparr>error = None, imageId = Some ''ami-2'', success = True\<rparr>),
        (''eu-west-2'', placeholder)])]
   \<and> repeatedStepCallback
        (cloneImage validate (granting ''ami-2'') (\<lambda>i. granting ''ami-2'') 1 [0, 1] config1)"
  by code_simp

section \<open>Claim C3: which failure the caller receives\<close>

text \<open>
  Claim C3, as amended. When every worker has finished and every one of them failed, the
  caller's callback runs once, and its error is the error of the worker that finished
  first: \<open>firstCloneImageError\<close> is set by the first worker callback that runs, whatever
  the position of its region in the list. The report delivered with it is the final report
  and has every destination region as a key.
\<close>

theorem cloneImage_all_workers_failed:
  "let X = cloneImage configValidator S W rounds schedule cfg in
     workers X \<noteq> [] \<and> distinct schedule \<and> set schedule = {..<length (workers X)}
     \<and> (\<forall>p \<in> set (workers X). \<exists>e log. snd p = Some (Inl e, log))
     \<longrightarrow> (\<exists>e log. snd (workers X ! hd schedule) = Some (Inl e, log)
            \<and> delivered X = [(Some e, results X)])
         \<and> \<not> repeatedStepCallback X
         \<and> completed X = length (destinationRegions cfg)
         \<and> set (map fst (results X)) = set (destinationRegions cfg)"
proof (cases rule: cloneImage_cases[of configValidator S W rounds schedule cfg])
  case (stopped e log)
  then show ?thesis by (simp add: Let_def)
next
  case (started img grants log)
  show ?thesis
  proof (cases "destinationRegions cfg = []")
    case True
    then show ?thesis using started(2) by (simp add: Let_def asyncCallback_simps)
  next
    case False
    define x1 where "x1 =
          \<lparr>results = initialResults (destinationRegions cfg), firstCloneImageError = None,
           completed = 0, delivered = [], repeatedStepCallback = False, sourceLog = log,
           workers = map (\<lambda>(i, r). (r, cloneImageToRegion rounds cfg (W i) img grants
                                       (sourceRegion cfg) r []))
                       (enumerate 0 (destinationRegions cfg))\<rparr>"
    define n where "n = length (destinationRegions cfg)"
    define X where "X = finishWorkers n schedule x1"
    have X: "cloneImage configValidator S W rounds schedule cfg = X"
      using started(2) False unfolding x1_def n_def X_def by simp
    have wx: "workers X = workers x1" unfolding X_def by (rule finishWorkers_workers)
    have len: "length (workers x1) = n" unfolding x1_def n_def by simp
    have x1: "delivered x1 = []" "\<not> repeatedStepCallback x1" "completed x1 = 0"
      "firstCloneImageError x1 = None"
      unfolding x1_def by simp_all
    have keys: "set (map fst (results X)) = set (destinationRegions cfg)"
      using cloneImage_report_main[of configValidator S W rounds schedule cfg]
        initialResults_keys(1)[of "destinationRegions cfg"]
      unfolding X by simp
    show ?thesis unfolding Let_def X
    proof (intro impI, elim conjE)
      assume ne: "workers X \<noteq> []" and d: "distinct schedule"
        and s: "set schedule = {..<length (workers X)}"
        and f: "\<forall>p \<in> set (workers X). \<exists>e log. snd p = Some (Inl e, log)"
      have ls: "length schedule = n"
        using distinct_card[OF d] s wx len by simp
      have sne: "schedule \<noteq> []" using ls ne wx len by auto
      have 1: "\<forall>i \<in> set schedule. i < length (workers x1) \<and>
                 (\<exists>e log. snd (workers x1 ! i) = Some (Inl e, log))"
        using s f wx by (metis lessThan_iff nth_mem)
      have 4: "completed x1 + length schedule \<le> n" using x1(3) ls by simp
      note r = finishWorkers_all_failed[OF 1 x1(1) x1(2) 4, folded X_def]
      obtain i s' where sch: "schedule = i # s'" using sne by (cases schedule) auto
      from 1 sch obtain e l where e: "snd (workers x1 ! i) = Some (Inl e, l)" by auto
      have fce: "firstCloneImageError X = Some e"
        using r x1(4) sch e by simp
      have del: "delivered X = [(Some e, results X)]"
        using r x1(3) ls sne fce by simp
      have "snd (workers X ! hd schedule) = Some (Inl e, l)" using e sch wx by simp
      then have "\<exists>e log. snd (workers X ! hd schedule) = Some (Inl e, log)
            \<and> delivered X = [(Some e, results X)]" using del by blast
      moreover have "\<not> repeatedStepCallback X" using r by simp
      moreover have "completed X = length (destinationRegions cfg)"
        using r x1(3) ls n_def by simp
      ultimately show "(\<exists>e log. snd (workers X ! hd schedule) = Some (Inl e, log)
            \<and> delivered X = [(Some e, results X)])
         \<and> \<not> repeatedStepCallback X
         \<and> completed X = length (destinationRegions cfg)
         \<and> set (map fst (results X)) = set (destinationRegions cfg)"
        using keys by blast
    qed
  qed
qed

text \<open>
  The claim as stated, that the error is that of the first failing region in the order of
  the list, fails when a later region's worker fails first: here both workers fail, the
  worker of the second region finishes first, and the caller receives its error, not the
  error recorded for the first region of the list.
\<close>

theorem cloneImage_first_error_by_completion:
  "delivered (cloneImage validate (granting ''ami-2'') bothRefused 1 [1, 0] config1) =
     [(Some (CallFailed ''copyImage'' ''B''),
       [(''eu-west-1'',
         \<lparr>error = Some (CallFailed ''copyImage'' ''A''), imageId = None, success = False\<rparr>),
        (''eu-west-2'',
         \<lparr>error = Some (CallFailed ''copyImage'' ''B''), imageId = None, success = False\<rparr>)])]
   \<and> destinationRegions config1 = [''eu-west-1'', ''eu-west-2'']
   \<and> Some (CallFailed ''copyImage'' ''B'') \<noteq>
       error (snd (hd (results (cloneImage validate (granting ''ami-2'') bothRefused 1 [1, 0] config1))))"
  by code_simp

lemma bothRefused_workers:
  "workers (cloneImage validate (granting ''ami-2'') bothRefused 1 [1, 0] config1) =
     [(''eu-west-1'',
       Some (Inl (CallFailed ''copyImage'' ''A''),
         [Remote (CopyImageReq ''eu-west-1'' ''name'' ''ami-1'' ''us-east-1'' ''description''),
          SetTimeout (Some 100),
          Remote (CopyImageReq ''eu-west-1'' ''name'' ''ami-1'' ''us-east-1'' ''description''),
          SetTimeout (Some 100),
          Remote (CopyImageReq ''eu-west-1'' ''name'' ''ami-1'' ''us-east-1'' ''description'')])),
      (''eu-west-2'',
       Some (Inl (CallFailed ''copyImage'' ''B''),
         [Remote (CopyImageReq ''eu-west-2'' ''name'' ''ami-1'' ''us-east-1'' ''description''),
          SetTimeout (Some 100),
          Remote (CopyImageReq ''eu-west-2'' ''name'' ''ami-1'' ''us-east-1'' ''description''),
          SetTimeout (Some 100),
          Remote (CopyImageReq ''eu-west-2'' ''name'' ''ami-1'' ''us-east-1'' ''description'')]))]"
  by code_simp

theorem cloneImage_all_workers_failed_witness:
  "delivered (cloneImage validate (granting ''ami-2'') bothRefused 1 [1, 0] config1) =
     [(Some (CallFailed ''copyImage'' ''B''),
       results (cloneImage validate (granting ''ami-2'') bothRefused 1 [1, 0] config1))]"
proof -
  let ?X = "cloneImage validate (granting ''ami-2'') bothRefused 1 [1, 0] config1"
  have h: "workers ?X \<noteq> [] \<and> distinct [1, 0 :: nat] \<and> set [1, 0] = {..<length (workers ?X)}
     \<and> (\<forall>p \<in> set (workers ?X). \<exists>e log. snd p = Some (Inl e, log))"
    unfolding bothRefused_workers by auto
  from cloneImage_all_workers_failed[of validate "granting ''ami-2''" bothRefused 1 "[1, 0]" config1,
      unfolded Let_def, rule_format, OF h]
  obtain e log where "snd (workers ?X ! hd [1, 0]) = Some (Inl e, log)"
    and d: "delivered ?X = [(Some e, results ?X)]" by blast
  then have "e = CallFailed ''copyImage'' ''B''" unfolding bothRefused_workers by simp
  with d show ?thesis by simp
qed

section \<open>Claim C4: the keys of the report\<close>




section \<open>Claim C5: the configuration object\<close>

text \<open>
  Claim C5, as amended. Construction fills the defaults into the caller's configuration
  object itself: after a call of the entry point the caller's object has the polling
  interval it had, or 30 when it had none, and is otherwise unchanged, as is every other
  object; an object that already has an interval is not modified at all. Every step of
  \<^verbatim>\<open>cloneImage\<close> reads the configuration as construction left it.
\<close>

theorem index_cloneImage_configuration:
  "fst (index_cloneImage S W rounds schedule h c) =
     h(c := (h c)\<lparr>progressCheckIntervalInSeconds :=
                    Some (case progressCheckIntervalInSeconds (h c) of None \<Rightarrow> 30 | Some s \<Rightarrow> s)\<rparr>)
   \<and> snd (index_cloneImage S W rounds schedule h c) =
       cloneImage validate S W rounds schedule (fst (index_cloneImage S W rounds schedule h c) c)
   \<and> (progressCheckIntervalInSeconds (h c) \<noteq> None \<longrightarrow>
        fst (index_cloneImage S W rounds schedule h c) = h)"
  by (auto simp: index_cloneImage_def ImageCloner_def fillConfigurationDefaults_def
      split: option.splits)

text \<open>
  The claim as stated, that the caller's object is not modified, fails for a configuration
  without a polling interval: the call adds the interval 30 to the caller's object.
\<close>

theorem index_cloneImage_modifies_configuration:
  "fst (index_cloneImage (granting ''ami-2'') (\<lambda>i. granting ''ami-2'') 1 [0] (\<lambda>r. config0) 0) 0
     \<noteq> (\<lambda>r. config0) 0
   \<and> progressCheckIntervalInSeconds ((\<lambda>r. config0) (0::nat)) = None
   \<and> progressCheckIntervalInSeconds
        (fst (index_cloneImage (granting ''ami-2'') (\<lambda>i. granting ''ami-2'') 1 [0] (\<lambda>r. config0) 0) 0)
       = Some 30"
  by (simp add: index_cloneImage_def ImageCloner_def fillConfigurationDefaults_def config0_def config1_def)

theorem index_cloneImage_configuration_witness:
  "progressCheckIntervalInSeconds ((\<lambda>r. config1) (0::nat)) \<noteq> None
   \<and> fst (index_cloneImage (granting ''ami-2'') (\<lambda>i. granting ''ami-2'') 1 [0] (\<lambda>r. config1) 0)
       = (\<lambda>r. config1)"
proof -
  have "progressCheckIntervalInSeconds ((\<lambda>r. config1) (0::nat)) \<noteq> None"
    by (simp add: config1_def)
  with index_cloneImage_configuration[of "granting ''ami-2''" "\<lambda>i. granting ''ami-2''" 1 "[0]"
      "\<lambda>r. config1" 0]
  show ?thesis by blast
qed

section \<open>Claim C6: the worker's pipeline\<close>

text \<open>
  Claim C6. A region worker runs copy image, await completion, apply tags and modify launch
  permissions in this order, each only after the one before has succeeded. Whenever the
  worker calls back, the steps of the requests in its log never decrease, and one of five
  cases holds: the copy failed, its error is the outcome and only copy requests
  were sent; the copy succeeded and the poller failed, its error is the outcome and no
  tag or permission request was sent; the tags failed, their error is the outcome and no
  permission request was sent; the permission update failed and its error is the outcome;
  or all four succeeded, the outcome is the id the copy returned, and the last request
  adds the source's grants to the launch permissions of the new image. The worker does
  not call back only when the copy succeeded and the poller does not call back.
\<close>

theorem cloneImageToRegion_pipeline:
  "case cloneImageToRegion rounds cfg R img grants src dst [] of
     None \<Rightarrow>
       (\<exists>newId l1. copyImage R (ImageId img) (Name img) (Description img) src dst [] = (Inr newId, l1)
          \<and> awaitImageCopyCompletion rounds cfg R newId dst l1 = None)
   | Some (res, log) \<Rightarrow>
       sorted (map pipelineStep (requests log)) \<and>
       ((\<exists>e. copyImage R (ImageId img) (Name img) (Description img) src dst [] = (Inl e, log)
            \<and> res = Inl e \<and> set (map pipelineStep (requests log)) = {1})
        \<or> (\<exists>newId l1 e.
              copyImage R (ImageId img) (Name img) (Description img) src dst [] = (Inr newId, l1)
            \<and> awaitImageCopyCompletion rounds cfg R newId dst l1 = Some (Some e, log)
            \<and> res = Inl e \<and> set (map pipelineStep (requests log)) = {1, 2})
        \<or> (\<exists>newId l1 l2 e.
              copyImage R (ImageId img) (Name img) (Description img) src dst [] = (Inr newId, l1)
            \<and> awaitImageCopyCompletion rounds cfg R newId dst l1 = Some (None, l2)
            \<and> tagImage R newId dst (Tags img) l2 = (Some e, log)
            \<and> res = Inl e \<and> set (map pipelineStep (requests log)) = {1, 2, 3})
        \<or> (\<exists>newId l1 l2 l3 e.
              copyImage R (ImageId img) (Name img) (Description img) src dst [] = (Inr newId, l1)
            \<and> awaitImageCopyCompletion rounds cfg R newId dst l1 = Some (None, l2)
            \<and> tagImage R newId dst (Tags img) l2 = (None, l3)
            \<and> modifyImageAttribute R newId dst LAUNCH_PERMISSION
                  \<lparr>Add = grants, Remove = None\<rparr> l3 = (Some e, log)
            \<and> res = Inl e \<and> set (map pipelineStep (requests log)) = {1, 2, 3, 4})
        \<or> (\<exists>newId l1 l2 l3.
              copyImage R (ImageId img) (Name img) (Description img) src dst [] = (Inr newId, l1)
            \<and> awaitImageCopyCompletion rounds cfg R newId dst l1 = Some (None, l2)
            \<and> tagImage R newId dst (Tags img) l2 = (None, l3)
            \<and> modifyImageAttribute R newId dst LAUNCH_PERMISSION
                  \<lparr>Add = grants, Remove = None\<rparr> l3 = (None, log)
            \<and> res = Inr newId \<and> set (map pipelineStep (requests log)) = {1, 2, 3, 4}
            \<and> last (requests log) =
                  ModifyImageAttributeReq dst ''launchPermission'' newId
                    (OwnString ''LaunchPermission'') \<lparr>Add = grants, Remove = None\<rparr>))"
proof -
  let ?copyReq = "CopyImageReq dst (Name img) (ImageId img) src (Description img)"
  obtain c l1 where copy: "copyImage R (ImageId img) (Name img) (Description img) src dst [] = (c, l1)"
    by (cases "copyImage R (ImageId img) (Name img) (Description img) src dst []")
  from copyImage_requests[OF copy] obtain a where
    a: "0 < a" "requests l1 = replicate a ?copyReq" by auto
  show ?thesis
  proof (cases c)
    case (Inl e)
    then have run: "cloneImageToRegion rounds cfg R img grants src dst [] = Some (Inl e, l1)"
      using copy by (simp add: cloneImageToRegion_def)
    have "map pipelineStep (requests l1) = replicate a 1" using a by simp
    then have "sorted (map pipelineStep (requests l1))" "set (map pipelineStep (requests l1)) = {1}"
      using a(1) by auto
    then show ?thesis using run copy Inl by simp
  next
    case (Inr newId)
    let ?descReq = "DescribeImagesReq dst [newId]"
    show ?thesis
    proof (cases "awaitImageCopyCompletion rounds cfg R newId dst l1")
      case None
      then have "cloneImageToRegion rounds cfg R img grants src dst [] = None"
        using copy Inr by (simp add: cloneImageToRegion_def)
      then show ?thesis using copy Inr None by simp
    next
      case (Some p)
      obtain w l2 where p: "p = (w, l2)" by (cases p)
      from await_requests[OF Some[unfolded p]] a obtain b where
        b: "0 < b" "requests l2 = replicate a ?copyReq @ replicate b ?descReq" by auto
      show ?thesis
      proof (cases w)
        case (Some e)
        then have run: "cloneImageToRegion rounds cfg R img grants src dst [] = Some (Inl e, l2)"
          using copy Inr \<open>awaitImageCopyCompletion rounds cfg R newId dst l1 = Some p\<close> p
          by (simp add: cloneImageToRegion_def)
        have m: "map pipelineStep (requests l2) = replicate a 1 @ replicate b 2 @ replicate 0 3 @ replicate 0 4"
          using b by simp
        have "sorted (map pipelineStep (requests l2))" unfolding m by (rule steps_sorted)
        moreover have "set (map pipelineStep (requests l2)) = {1, 2}"
          unfolding m using a(1) b(1) by (subst steps_set) auto
        ultimately show ?thesis
          using run copy Inr \<open>awaitImageCopyCompletion rounds cfg R newId dst l1 = Some p\<close> p Some
          by simp
      next
        case None
        note aw = \<open>awaitImageCopyCompletion rounds cfg R newId dst l1 = Some p\<close>[unfolded p None]
        let ?tagReq = "CreateTagsReq dst [newId] (Tags img)"
        obtain tg l3 where tag: "tagImage R newId dst (Tags img) l2 = (tg, l3)"
          by (cases "tagImage R newId dst (Tags img) l2")
        from tagImage_requests[OF tag] b obtain c' where
          c': "0 < c'" "requests l3 = replicate a ?copyReq @ replicate b ?descReq @ replicate c' ?tagReq"
          by auto
        show ?thesis
        proof (cases tg)
          case (Some e)
          then have run: "cloneImageToRegion rounds cfg R img grants src dst [] = Some (Inl e, l3)"
            using copy Inr aw tag by (simp add: cloneImageToRegion_def)
          have m: "map pipelineStep (requests l3) = replicate a 1 @ replicate b 2 @ replicate c' 3 @ replicate 0 4"
            using c' by simp
          have "sorted (map pipelineStep (requests l3))" unfolding m by (rule steps_sorted)
          moreover have "set (map pipelineStep (requests l3)) = {1, 2, 3}"
            unfolding m using a(1) b(1) c'(1) by (subst steps_set) auto
          ultimately show ?thesis using run copy Inr aw tag Some by simp
        next
          case None
          let ?v = "\<lparr>Add = grants, Remove = None\<rparr>"
          let ?modReq = "ModifyImageAttributeReq dst LAUNCH_PERMISSION newId (OwnString ''LaunchPermission'') ?v"
          obtain md l4 where md: "modifyImageAttribute R newId dst LAUNCH_PERMISSION ?v l3 = (md, l4)"
            by (cases "modifyImageAttribute R newId dst LAUNCH_PERMISSION ?v l3")
          from modifyImageAttribute_requests[OF md] c' obtain d where
            d: "0 < d" "requests l4 = replicate a ?copyReq @ replicate b ?descReq @ replicate c' ?tagReq @ replicate d ?modReq"
            by auto
          have m: "map pipelineStep (requests l4) = replicate a 1 @ replicate b 2 @ replicate c' 3 @ replicate d 4"
            using d by simp
          have srt: "sorted (map pipelineStep (requests l4))" unfolding m by (rule steps_sorted)
          have st: "set (map pipelineStep (requests l4)) = {1, 2, 3, 4}"
            unfolding m using a(1) b(1) c'(1) d(1) by (subst steps_set) auto
          have lst: "last (requests l4) = ?modReq" using d by simp
          show ?thesis
          proof (cases md)
            case (Some e)
            then have run: "cloneImageToRegion rounds cfg R img grants src dst [] = Some (Inl e, l4)"
              using copy Inr aw tag None md by (simp add: cloneImageToRegion_def)
            show ?thesis using run copy Inr aw tag \<open>tg = None\<close> md Some srt st by simp
          next
            case None
            then have run: "cloneImageToRegion rounds cfg R img grants src dst [] = Some (Inr newId, l4)"
              using copy Inr aw tag \<open>tg = None\<close> md by (simp add: cloneImageToRegion_def)
            show ?thesis using run copy Inr aw tag \<open>tg = None\<close> md None srt st lst
              by (simp add: LAUNCH_PERMISSION_def)
          qed
        qed
      qed
    qed
  qed
qed


lemma run_tags_refused:
  "cloneImageToRegion 3 config1 (refusingTags ''denied'') sourceImage1 (Some grants1)
     ''us-east-1'' ''eu-west-1'' [] =
   Some (Inl (CallFailed ''createTags'' ''denied''),
     [Remote (CopyImageReq ''eu-west-1'' ''name'' ''ami-1'' ''us-east-1'' ''description''),
      SetTimeout (Some 30000),
      Remote (DescribeImagesReq ''eu-west-1'' [''ami-2'']),
      Remote (CreateTagsReq ''eu-west-1'' [''ami-2''] [\<lparr>Key = ''key'', Value = ''value''\<rparr>]),
      SetTimeout (Some 100),
      Remote (CreateTagsReq ''eu-west-1'' [''ami-2''] [\<lparr>Key = ''key'', Value = ''value''\<rparr>]),
      SetTimeout (Some 100),
      Remote (CreateTagsReq ''eu-west-1'' [''ami-2''] [\<lparr>Key = ''key'', Value = ''value''\<rparr>])])"
  by code_simp

theorem cloneImageToRegion_pipeline_witness:
  "cloneImageToRegion 3 config1 (refusingTags ''denied'') sourceImage1 (Some grants1)
     ''us-east-1'' ''eu-west-1'' [] =
   Some (Inl (CallFailed ''createTags'' ''denied''),
     [Remote (CopyImageReq ''eu-west-1'' ''name'' ''ami-1'' ''us-east-1'' ''description''),
      SetTimeout (Some 30000),
      Remote (DescribeImagesReq ''eu-west-1'' [''ami-2'']),
      Remote (CreateTagsReq ''eu-west-1'' [''ami-2''] [\<lparr>Key = ''key'', Value = ''value''\<rparr>]),
      SetTimeout (Some 100),
      Remote (CreateTagsReq ''eu-west-1'' [''ami-2''] [\<lparr>Key = ''key'', Value = ''value''\<rparr>]),
      SetTimeout (Some 100),
      Remote (CreateTagsReq ''eu-west-1'' [''ami-2''] [\<lparr>Key = ''key'', Value = ''value''\<rparr>])])
   \<and> sorted (map pipelineStep (requests
     [Remote (CopyImageReq ''eu-west-1'' ''name'' ''ami-1'' ''us-east-1'' ''description''),
      SetTimeout (Some 30000),
      Remote (DescribeImagesReq ''eu-west-1'' [''ami-2'']),
      Remote (CreateTagsReq ''eu-west-1'' [''ami-2''] [\<lparr>Key = ''key'', Value = ''value''\<rparr>]),
      SetTimeout (Some 100),
      Remote (CreateTagsReq ''eu-west-1'' [''ami-2''] [\<lparr>Key = ''key'', Value = ''value''\<rparr>]),
      SetTimeout (Some 100),
      Remote (CreateTagsReq ''eu-west-1'' [''ami-2''] [\<lparr>Key = ''key'', Value = ''value''\<rparr>])]))"
proof -
  note t = cloneImageToRegion_pipeline[where rounds = 3 and cfg = config1
      and R = "refusingTags ''denied''" and img = sourceImage1 and grants = "Some grants1"
      and src = "''us-east-1''" and dst = "''eu-west-1''", unfolded run_tags_refused]
  from t have "sorted (map pipelineStep (requests
     [Remote (CopyImageReq ''eu-west-1'' ''name'' ''ami-1'' ''us-east-1'' ''description''),
      SetTimeout (Some 30000),
      Remote (DescribeImagesReq ''eu-west-1'' [''ami-2'']),
      Remote (CreateTagsReq ''eu-west-1'' [''ami-2''] [\<lparr>Key = ''key'', Value = ''value''\<rparr>]),
      SetTimeout (Some 100),
      Remote (CreateTagsReq ''eu-west-1'' [''ami-2''] [\<lparr>Key = ''key'', Value = ''value''\<rparr>]),
      SetTimeout (Some 100),
      Remote (CreateTagsReq ''eu-west-1'' [''ami-2''] [\<lparr>Key = ''key'', Value = ''value''\<rparr>])]))"
    by (simp only: option.case prod.case)
  then show ?thesis using run_tags_refused by (intro conjI)
qed

section \<open>Claim C7: one round of the poller\<close>

text \<open>
  Claim C7, as amended. Each round of the poller sets one timer of
  \<open>progressCheckIntervalInSeconds\<close> seconds and then describes the image. If the
  description fails, the poller calls back with that error at once and sends nothing more.
  If the image's state is a non-empty string other than \<open>pending\<close>, the poller calls back
  without error, whatever the state is. If the state is \<open>pending\<close>, empty or missing, the
  poller goes on to the next round, which again starts with one timer of the same
  interval. Once the poller has called back within some rounds, following more rounds
  gives the same result, and all it has sent are requests to describe this image, at most
  three per round.
\<close>

theorem awaitImageCopyCompletion_round:
  "(describeImage R newId region
      (log @ [SetTimeout (map_option (\<lambda>s. s * 1000) (progressCheckIntervalInSeconds cfg))]) = (Inl e, log')
    \<longrightarrow> awaitImageCopyCompletion (Suc rounds) cfg R newId region log = Some (Some e, log'))
   \<and> (describeImage R newId region
      (log @ [SetTimeout (map_option (\<lambda>s. s * 1000) (progressCheckIntervalInSeconds cfg))]) = (Inr img, log')
      \<and> State img = Some s \<and> s \<noteq> [] \<and> s \<noteq> ''pending''
    \<longrightarrow> awaitImageCopyCompletion (Suc rounds) cfg R newId region log = Some (None, log'))
   \<and> (describeImage R newId region
      (log @ [SetTimeout (map_option (\<lambda>s. s * 1000) (progressCheckIntervalInSeconds cfg))]) = (Inr img, log')
      \<and> (State img = Some ''pending'' \<or> State img = Some [] \<or> State img = None)
    \<longrightarrow> awaitImageCopyCompletion (Suc rounds) cfg R newId region log =
          awaitImageCopyCompletion rounds cfg R newId region log'
        \<and> awaitImageCopyCompletion (Suc (Suc rounds)) cfg R newId region log =
          (case describeImage R newId region
              (log' @ [SetTimeout (map_option (\<lambda>s. s * 1000) (progressCheckIntervalInSeconds cfg))]) of
             (Inl e', log'') \<Rightarrow> Some (Some e', log'')
           | (Inr img', log'') \<Rightarrow>
               if leftPending (State img') then Some (None, log'')
               else awaitImageCopyCompletion rounds cfg R newId region log''))
   \<and> (awaitImageCopyCompletion rounds cfg R newId region log = Some (res, log')
    \<longrightarrow> awaitImageCopyCompletion (rounds + extra) cfg R newId region log = Some (res, log')
        \<and> (\<exists>k. 0 < k \<and> k \<le> 3 * rounds
               \<and> requests log' = requests log @ replicate k (DescribeImagesReq region [newId])))"
proof -
  define timer where
    "timer = SetTimeout (map_option (\<lambda>s. s * 1000) (progressCheckIntervalInSeconds cfg))"
  have step: "\<And>n l. awaitImageCopyCompletion (Suc n) cfg R newId region l =
      (case describeImage R newId region (l @ [timer]) of
         (Inl e', l') \<Rightarrow> Some (Some e', l')
       | (Inr img', l') \<Rightarrow>
           if leftPending (State img') then Some (None, l')
           else awaitImageCopyCompletion n cfg R newId region l')"
    unfolding timer_def by (rule awaitImageCopyCompletion.simps(2))
  have c1: "describeImage R newId region (log @ [timer]) = (Inl e, log')
    \<longrightarrow> awaitImageCopyCompletion (Suc rounds) cfg R newId region log = Some (Some e, log')"
    unfolding step by simp
  have c2: "describeImage R newId region (log @ [timer]) = (Inr img, log')
      \<and> State img = Some s \<and> s \<noteq> [] \<and> s \<noteq> ''pending''
    \<longrightarrow> awaitImageCopyCompletion (Suc rounds) cfg R newId region log = Some (None, log')"
    unfolding step by simp
  have c3: "describeImage R newId region (log @ [timer]) = (Inr img, log')
      \<and> (State img = Some ''pending'' \<or> State img = Some [] \<or> State img = None)
    \<longrightarrow> awaitImageCopyCompletion (Suc rounds) cfg R newId region log =
          awaitImageCopyCompletion rounds cfg R newId region log'
        \<and> awaitImageCopyCompletion (Suc (Suc rounds)) cfg R newId region log =
          (case describeImage R newId region (log' @ [timer]) of
             (Inl e', log'') \<Rightarrow> Some (Some e', log'')
           | (Inr img', log'') \<Rightarrow>
               if leftPending (State img') then Some (None, log'')
               else awaitImageCopyCompletion rounds cfg R newId region log'')"
  proof (intro impI, elim conjE)
    assume d: "describeImage R newId region (log @ [timer]) = (Inr img, log')"
      and st: "State img = Some ''pending'' \<or> State img = Some [] \<or> State img = None"
    from st have p: "\<not> leftPending (State img)" by auto
    have again: "\<And>n. awaitImageCopyCompletion (Suc n) cfg R newId region log =
        awaitImageCopyCompletion n cfg R newId region log'"
      unfolding step[of _ log] d using p by simp
    show "awaitImageCopyCompletion (Suc rounds) cfg R newId region log =
          awaitImageCopyCompletion rounds cfg R newId region log'
        \<and> awaitImageCopyCompletion (Suc (Suc rounds)) cfg R newId region log =
          (case describeImage R newId region (log' @ [timer]) of
             (Inl e', log'') \<Rightarrow> Some (Some e', log'')
           | (Inr img', log'') \<Rightarrow>
               if leftPending (State img') then Some (None, log'')
               else awaitImageCopyCompletion rounds cfg R newId region log'')"
      unfolding again by (simp only: step)
  qed
  have c4: "awaitImageCopyCompletion rounds cfg R newId region log = Some (res, log')
    \<longrightarrow> awaitImageCopyCompletion (rounds + extra) cfg R newId region log = Some (res, log')
        \<and> (\<exists>k. 0 < k \<and> k \<le> 3 * rounds
               \<and> requests log' = requests log @ replicate k (DescribeImagesReq region [newId]))"
  proof (intro impI conjI)
    assume a: "awaitImageCopyCompletion rounds cfg R newId region log = Some (res, log')"
    show "awaitImageCopyCompletion (rounds + extra) cfg R newId region log = Some (res, log')"
      by (rule await_more_rounds[OF a])
    show "\<exists>k. 0 < k \<and> k \<le> 3 * rounds
               \<and> requests log' = requests log @ replicate k (DescribeImagesReq region [newId])"
      by (rule await_requests[OF a])
  qed
  show ?thesis using c1 c2 c3 c4 unfolding timer_def by (intro conjI)
qed

text \<open>
  The claim as stated, that the poller returns on any state other than \<open>pending\<close>, fails
  for the empty state: after a round that observed it the poller has not called back, and
  it polls again.
\<close>

theorem awaitImageCopyCompletion_blank_state:
  "describeImage (firstInState (Some [])) ''ami-2'' ''eu-west-1'' [SetTimeout (Some 30000)] =
     (Inr (sourceImage1\<lparr>State := Some []\<rparr>),
      [SetTimeout (Some 30000), Remote (DescribeImagesReq ''eu-west-1'' [''ami-2''])])
   \<and> State (sourceImage1\<lparr>State := Some []\<rparr>) \<noteq> Some ''pending''
   \<and> awaitImageCopyCompletion 1 config1 (firstInState (Some [])) ''ami-2'' ''eu-west-1'' [] = None
   \<and> awaitImageCopyCompletion 2 config1 (firstInState (Some [])) ''ami-2'' ''eu-west-1'' [] =
       Some (None,
         [SetTimeout (Some 30000), Remote (DescribeImagesReq ''eu-west-1'' [''ami-2'']),
          SetTimeout (Some 30000), Remote (DescribeImagesReq ''eu-west-1'' [''ami-2''])])"
  by code_simp

theorem awaitImageCopyCompletion_round_witness:
  "awaitImageCopyCompletion (Suc 0) config1 (refusingDescribe ''down'') ''ami-2'' ''eu-west-1'' [] =
     Some (Some (CallFailed ''describeImages'' ''down''),
       [SetTimeout (Some 30000), Remote (DescribeImagesReq ''eu-west-1'' [''ami-2'']),
        SetTimeout (Some 100), Remote (DescribeImagesReq ''eu-west-1'' [''ami-2'']),
        SetTimeout (Some 100), Remote (DescribeImagesReq ''eu-west-1'' [''ami-2''])])
   \<and> awaitImageCopyCompletion (Suc 0) config1 (granting ''ami-2'') ''ami-2'' ''eu-west-1'' [] =
     Some (None, [SetTimeout (Some 30000), Remote (DescribeImagesReq ''eu-west-1'' [''ami-2''])])
   \<and> awaitImageCopyCompletion (Suc 0) config1 (firstInState (Some ''pending'')) ''ami-2''
        ''eu-west-1'' [] =
     awaitImageCopyCompletion 0 config1 (firstInState (Some ''pending'')) ''ami-2'' ''eu-west-1''
       [SetTimeout (Some 30000), Remote (DescribeImagesReq ''eu-west-1'' [''ami-2''])]
   \<and> awaitImageCopyCompletion (Suc 0 + 5) config1 (granting ''ami-2'') ''ami-2'' ''eu-west-1'' [] =
     Some (None, [SetTimeout (Some 30000), Remote (DescribeImagesReq ''eu-west-1'' [''ami-2''])])"
proof -
  have t: "[] @ [SetTimeout (map_option (\<lambda>s. s * 1000) (progressCheckIntervalInSeconds config1))] =
        [SetTimeout (Some 30000)]" by (simp add: config1_def)
  have 1: "describeImage (refusingDescribe ''down'') ''ami-2'' ''eu-west-1'' [SetTimeout (Some 30000)] =
      (Inl (CallFailed ''describeImages'' ''down''),
       [SetTimeout (Some 30000), Remote (DescribeImagesReq ''eu-west-1'' [''ami-2'']),
        SetTimeout (Some 100), Remote (DescribeImagesReq ''eu-west-1'' [''ami-2'']),
        SetTimeout (Some 100), Remote (DescribeImagesReq ''eu-west-1'' [''ami-2''])])"
    by code_simp
  have 2: "describeImage (granting ''ami-2'') ''ami-2'' ''eu-west-1'' [SetTimeout (Some 30000)] =
      (Inr sourceImage1, [SetTimeout (Some 30000), Remote (DescribeImagesReq ''eu-west-1'' [''ami-2''])])
      \<and> State sourceImage1 = Some ''available'' \<and> ''available'' \<noteq> [] \<and> ''available'' \<noteq> ''pending''"
    by code_simp
  have 3: "describeImage (firstInState (Some ''pending'')) ''ami-2'' ''eu-west-1'' [SetTimeout (Some 30000)] =
      (Inr (sourceImage1\<lparr>State := Some ''pending''\<rparr>),
       [SetTimeout (Some 30000), Remote (DescribeImagesReq ''eu-west-1'' [''ami-2''])])
      \<and> (State (sourceImage1\<lparr>State := Some ''pending''\<rparr>) = Some ''pending''
          \<or> State (sourceImage1\<lparr>State := Some ''pending''\<rparr>) = Some []
          \<or> State (sourceImage1\<lparr>State := Some ''pending''\<rparr>) = None)"
    by code_simp
  note a = awaitImageCopyCompletion_round[where log = "[]" and cfg = config1 and rounds = 0
      and region = "''eu-west-1''" and newId = "''ami-2''", unfolded t]
  from a[where R = "refusingDescribe ''down''", THEN conjunct1, rule_format, OF 1]
  have r1: "awaitImageCopyCompletion (Suc 0) config1 (refusingDescribe ''down'') ''ami-2'' ''eu-west-1'' [] =
     Some (Some (CallFailed ''describeImages'' ''down''),
       [SetTimeout (Some 30000), Remote (DescribeImagesReq ''eu-west-1'' [''ami-2'']),
        SetTimeout (Some 100), Remote (DescribeImagesReq ''eu-west-1'' [''ami-2'']),
        SetTimeout (Some 100), Remote (DescribeImagesReq ''eu-west-1'' [''ami-2''])])" .
  from a[where R = "granting ''ami-2''", THEN conjunct2, THEN conjunct1, rule_format, OF 2]
  have r2: "awaitImageCopyCompletion (Suc 0) config1 (granting ''ami-2'') ''ami-2'' ''eu-west-1'' [] =
     Some (None, [SetTimeout (Some 30000), Remote (DescribeImagesReq ''eu-west-1'' [''ami-2''])])" .
  from a[where R = "firstInState (Some ''pending'')", THEN conjunct2, THEN conjunct2, THEN conjunct1, rule_format, OF 3]
  have r3: "awaitImageCopyCompletion (Suc 0) config1 (firstInState (Some ''pending'')) ''ami-2''
        ''eu-west-1'' [] =
     awaitImageCopyCompletion 0 config1 (firstInState (Some ''pending'')) ''ami-2'' ''eu-west-1''
       [SetTimeout (Some 30000), Remote (DescribeImagesReq ''eu-west-1'' [''ami-2''])]" by blast
  from awaitImageCopyCompletion_round[where R = "granting ''ami-2''" and log = "[]"
      and cfg = config1 and rounds = "Suc 0" and region = "''eu-west-1''" and newId = "''ami-2''"
      and extra = 5, THEN conjunct2, THEN conjunct2, THEN conjunct2, rule_format, OF r2]
  have r4: "awaitImageCopyCompletion (Suc 0 + 5) config1 (granting ''ami-2'') ''ami-2'' ''eu-west-1'' [] =
     Some (None, [SetTimeout (Some 30000), Remote (DescribeImagesReq ''eu-west-1'' [''ami-2''])])"
    by blast
  show ?thesis using r1 r2 r3 r4 by blast
qed

section \<open>Claim C8: an invalid configuration\<close>

text \<open>
  Claim C8. If the validator reports any violation, the caller's callback runs once, with
  an error that holds every violation; no request is sent and no timer is set, no worker is
  started, and every entry of the report is the placeholder.
\<close>

theorem cloneImage_invalid_configuration:
  assumes "configValidator cfg \<noteq> []"
  shows "cloneImage configValidator S W rounds schedule cfg =
           \<lparr>results = initialResults (destinationRegions cfg), firstCloneImageError = None,
            completed = 0,
            delivered = [(Some (InvalidConfiguration (configValidator cfg)),
                          initialResults (destinationRegions cfg))],
            repeatedStepCallback = False, sourceLog = [], workers = []\<rparr>
         \<and> snd ` set (initialResults (destinationRegions cfg)) \<subseteq> {placeholder}"
proof -
  obtain v vs where v: "configValidator cfg = v # vs" using assms by (cases "configValidator cfg") auto
  have "snd ` set (initialResults (destinationRegions cfg)) \<subseteq> {placeholder}"
    by (auto simp: initialResults_def)
  then show ?thesis by (simp add: cloneImage_def v topCallback_def)
qed

theorem cloneImage_invalid_configuration_witness:
  "validate invalidConfig = [''sourceImageId: minLength 1'']
   \<and> cloneImage validate (granting ''ami-2'') (\<lambda>i. granting ''ami-2'') 1 [0, 1] invalidConfig =
       \<lparr>results = [(''eu-west-1'', placeholder), (''eu-west-2'', placeholder)],
        firstCloneImageError = None, completed = 0,
        delivered = [(Some (InvalidConfiguration [''sourceImageId: minLength 1'']),
                      [(''eu-west-1'', placeholder), (''eu-west-2'', placeholder)])],
        repeatedStepCallback = False, sourceLog = [], workers = []\<rparr>"
proof -
  have v: "validate invalidConfig = [''sourceImageId: minLength 1'']"
    by (simp add: validate_def invalidConfig_def config1_def)
  have r: "initialResults (destinationRegions invalidConfig) =
      [(''eu-west-1'', placeholder), (''eu-west-2'', placeholder)]"
    by (simp add: initialResults_def keyBy_def invalidConfig_def config1_def)
  have "validate invalidConfig \<noteq> []" by (simp add: v)
  from cloneImage_invalid_configuration[where configValidator = validate and cfg = invalidConfig
      and S = "granting ''ami-2''" and W = "\<lambda>i. granting ''ami-2''" and rounds = 1
      and schedule = "[0, 1]", OF this]
  show ?thesis unfolding v r by simp
qed

section \<open>Claim C9: the entries of the report\<close>

text \<open>
  Claim C9, as amended. When the destination regions are distinct and every worker
  finishes at most once, every entry of the report, and of every report handed to the
  caller, is consistent: either \<open>success\<close> is true with an image id and no error, or
  \<open>success\<close> is false with an error and no image id. As long as the step callback has not
  been called twice, the entry of every worker that has finished is the entry expected of
  its outcome.
\<close>

theorem cloneImage_outcomes_distinct_regions:
  assumes "distinct (destinationRegions cfg)" and "distinct schedule"
  shows "let X = cloneImage configValidator S W rounds schedule cfg in
     (\<forall>r out. map_of (results X) r = Some out \<longrightarrow> consistent out)
   \<and> (\<forall>p \<in> set (delivered X). \<forall>r out. map_of (snd p) r = Some out \<longrightarrow> consistent out)
   \<and> (\<not> repeatedStepCallback X \<longrightarrow>
        (\<forall>i \<in> set schedule. i < length (workers X) \<longrightarrow>
           map_of (results X) (fst (workers X ! i)) =
             Some (expectedOutcome (snd (workers X ! i)))))"
proof (cases rule: cloneImage_cases[of configValidator S W rounds schedule cfg])
  case (stopped e log)
  then show ?thesis by (auto simp: Let_def intro: initialResults_consistent)
next
  case (started img grants log)
  show ?thesis
  proof (cases "destinationRegions cfg = []")
    case True
    then show ?thesis using started(2)
      by (auto simp: Let_def asyncCallback_simps intro: initialResults_consistent)
  next
    case False
    define x1 where "x1 =
          \<lparr>results = initialResults (destinationRegions cfg), firstCloneImageError = None,
           completed = 0, delivered = [], repeatedStepCallback = False, sourceLog = log,
           workers = map (\<lambda>(i, r). (r, cloneImageToRegion rounds cfg (W i) img grants
                                       (sourceRegion cfg) r []))
                       (enumerate 0 (destinationRegions cfg))\<rparr>"
    define n where "n = length (destinationRegions cfg)"
    have X: "cloneImage configValidator S W rounds schedule cfg = finishWorkers n schedule x1"
      using started(2) False unfolding x1_def n_def by simp
    have res: "results x1 = initialResults (destinationRegions cfg)" and del: "delivered x1 = []"
      unfolding x1_def by simp_all
    have ws: "map fst (workers x1) = destinationRegions cfg"
      unfolding x1_def using started_workers[of _ "destinationRegions cfg"]
      by (simp add: case_prod_beta comp_def)
    have 1: "distinct (map fst (workers x1))" using ws assms(1) by simp
    have 3: "\<forall>i \<in> set schedule. i < length (workers x1) \<longrightarrow>
           map_of (results x1) (fst (workers x1 ! i)) = Some placeholder"
    proof (intro ballI impI)
      fix i assume "i < length (workers x1)"
      then have "fst (workers x1 ! i) \<in> set (destinationRegions cfg)"
        using ws by (metis length_map nth_map nth_mem)
      then show "map_of (results x1) (fst (workers x1 ! i)) = Some placeholder"
        unfolding res by (rule initialResults_lookup)
    qed
    have 4: "\<forall>r out. map_of (results x1) r = Some out \<longrightarrow> consistent out"
      unfolding res using initialResults_consistent by blast
    have 5: "\<forall>p \<in> set (delivered x1). \<forall>r out. map_of (snd p) r = Some out \<longrightarrow> consistent out"
      unfolding del by simp
    note c = finishWorkers_consistent[OF 1 assms(2) 3 4 5, of n]
    have o: "\<not> repeatedStepCallback (finishWorkers n schedule x1) \<longrightarrow>
        (\<forall>i \<in> set schedule. i < length (workers x1) \<longrightarrow>
           map_of (results (finishWorkers n schedule x1)) (fst (workers x1 ! i)) =
             Some (expectedOutcome (snd (workers x1 ! i))))"
      using finishWorkers_outcomes[OF 1 assms(2) 3, of n] by blast
    show ?thesis unfolding Let_def X using c o by (simp add: finishWorkers_workers)
  qed
qed

text \<open>
  Without distinct regions the claim fails: when a region is named twice, its first worker
  succeeds and its second fails afterwards, the failure is written into the entry of the
  success, which then has an image id, an error and \<open>success\<close> true.
\<close>

theorem cloneImage_repeated_region_outcome:
  "validate repeatedRegions = []
   \<and> results (cloneImage validate (granting ''ami-2'') secondRefused 1 [0, 1] repeatedRegions) =
       [(''eu-west-1'',
         \<lparr>error = Some (CallFailed ''copyImage'' ''denied''), imageId = Some ''ami-2'',
          success = True\<rparr>)]
   \<and> \<not> consistent
         \<lparr>error = Some (CallFailed ''copyImage'' ''denied''), imageId = Some ''ami-2'',
          success = True\<rparr>
   \<and> \<not> repeatedStepCallback
         (cloneImage validate (granting ''ami-2'') secondRefused 1 [0, 1] repeatedRegions)"
  by code_simp

lemma firstRefused_run:
  "repeatedStepCallback (cloneImage validate (granting ''ami-2'') firstRefused 1 [0, 1] config1) = False"
  "length (workers (cloneImage validate (granting ''ami-2'') firstRefused 1 [0, 1] config1)) = 2"
  "fst (workers (cloneImage validate (granting ''ami-2'') firstRefused 1 [0, 1] config1) ! 1) = ''eu-west-2''"
  "map_option fst (snd (workers (cloneImage validate (granting ''ami-2'') firstRefused 1 [0, 1] config1) ! 1)) =
     Some (Inr ''ami-2'')"
  by code_simp+

theorem cloneImage_outcomes_distinct_regions_witness:
  "distinct (destinationRegions config1) \<and> distinct [0, 1 :: nat]
   \<and> map_of (results (cloneImage validate (granting ''ami-2'') firstRefused 1 [0, 1] config1))
        ''eu-west-2'' = Some \<lparr>error = None, imageId = Some ''ami-2'', success = True\<rparr>
   \<and> consistent \<lparr>error = None, imageId = Some ''ami-2'', success = True\<rparr>"
proof -
  let ?X = "cloneImage validate (granting ''ami-2'') firstRefused 1 [0, 1] config1"
  have d: "distinct (destinationRegions config1)" "distinct [0, 1 :: nat]"
    by (simp_all add: config1_def)
  note t = cloneImage_outcomes_distinct_regions[OF d, of validate "granting ''ami-2''" firstRefused 1,
      unfolded Let_def]
  from t firstRefused_run(1,2) have "map_of (results ?X) (fst (workers ?X ! 1)) =
      Some (expectedOutcome (snd (workers ?X ! 1)))" by simp
  moreover obtain log where "snd (workers ?X ! 1) = Some (Inr ''ami-2'', log)"
    using firstRefused_run(4) by (cases "snd (workers ?X ! 1)") auto
  ultimately have e: "map_of (results ?X) ''eu-west-2'' =
      Some \<lparr>error = None, imageId = Some ''ami-2'', success = True\<rparr>"
    using firstRefused_run(3) by simp
  with t have "consistent \<lparr>error = None, imageId = Some ''ami-2'', success = True\<rparr>" by blast
  with d e show ?thesis by simp
qed

section \<open>Claim C10: attributes other than launchPermission\<close>

text \<open>
  Claim C10 says that every attribute name other than \<open>launchPermission\<close> is refused as
  unsupported before any request is sent. The code looks the name up with
  \<^verbatim>\<open>modifyImageAttributesProperty[attribute]\<close>, which also finds what the table inherits:
  for the name \<open>toString\<close> the lookup yields a function, the test \<^verbatim>\<open>!property\<close> fails,
  and the request is sent, with the value stored under that function as key; the result
  is never the error for an unsupported attribute.
\<close>

theorem modifyImageAttribute_inherited_member:
  "fst (modifyImageAttribute R i t ''toString'' v []) \<noteq>
     Some (UnsupportedAttribute ''modifyImageAttribute'' ''toString'')
   \<and> requests (snd (modifyImageAttribute R i t ''toString'' v [])) \<noteq> []
   \<and> hd (requests (snd (modifyImageAttribute R i t ''toString'' v []))) =
       ModifyImageAttributeReq t ''toString'' i (Inherited ''toString'') v
   \<and> modifyImageAttribute (granting ''ami-2'') ''ami-2'' ''eu-west-1'' ''toString''
         \<lparr>Add = Some grants1, Remove = None\<rparr> [] =
       (None, [Remote (ModifyImageAttributeReq ''eu-west-1'' ''toString'' ''ami-2''
                 (Inherited ''toString'') \<lparr>Add = Some grants1, Remove = None\<rparr>)])"
proof -
  let ?req = "ModifyImageAttributeReq t ''toString'' i (Inherited ''toString'') v"
  obtain r0 l0 where r: "retry retryConfig (send (modifyImageAttributeR R) ?req) [] = (r0, l0)"
    by (cases "retry retryConfig (send (modifyImageAttributeR R) ?req) []")
  have m: "modifyImageAttribute R i t ''toString'' v [] =
        (case r0 of Inl e \<Rightarrow> Some (CallFailed ''modifyImageAttribute'' e) | Inr u \<Rightarrow> None, l0)"
    using r by (simp add: modifyImageAttribute_def toString_property split: sum.splits)
  have "\<exists>k. 0 < k \<and> k \<le> 3 \<and> requests l0 = requests [] @ replicate k ?req"
    using r by (elim retry_requests[rotated]) (rule send_requests)
  then obtain k where k: "0 < k" "requests l0 = replicate k ?req" by auto
  have "requests l0 \<noteq> []" "hd (requests l0) = ?req" using k by auto
  moreover have "fst (modifyImageAttribute R i t ''toString'' v []) \<noteq>
     Some (UnsupportedAttribute ''modifyImageAttribute'' ''toString'')"
    unfolding m by (simp split: sum.splits)
  moreover have "modifyImageAttribute (granting ''ami-2'') ''ami-2'' ''eu-west-1'' ''toString''
         \<lparr>Add = Some grants1, Remove = None\<rparr> [] =
       (None, [Remote (ModifyImageAttributeReq ''eu-west-1'' ''toString'' ''ami-2''
                 (Inherited ''toString'') \<lparr>Add = Some grants1, Remove = None\<rparr>)])"
    by code_simp
  ultimately show ?thesis unfolding m by simp
qed

end
